theory Spec2Isabelle
  imports Complex_Main
begin

section \<open>Floating-point values and numpy arrays\<close>

text \<open>
  The arrays of \<^verbatim>\<open>xafs_preedge.py\<close> are one-dimensional numpy arrays of doubles. A double
  is modelled as a real number or one of the three special values of IEEE 754; the
  arithmetic and the comparisons below are the IEEE ones on the special values and exact
  on the finite ones (rounding, overflow and the sign of zero are left out).
\<close>

datatype fl = Fin real | PInf | NInf | NaN

datatype error = ValueError | IndexError | TypeError | LinAlgError

fun isnan :: "fl \<Rightarrow> bool" where
  "isnan NaN = True"
| "isnan (Fin a) = False"
| "isnan PInf = False"
| "isnan NInf = False"

fun isinf :: "fl \<Rightarrow> bool" where
  "isinf PInf = True"
| "isinf NInf = True"
| "isinf (Fin a) = False"
| "isinf NaN = False"

fun isfinite :: "fl \<Rightarrow> bool" where
  "isfinite (Fin a) = True"
| "isfinite PInf = False"
| "isfinite NInf = False"
| "isfinite NaN = False"

text \<open>\<^verbatim>\<open>a == b\<close>: a NaN is equal to nothing, itself included.\<close>

fun fl_eq :: "fl \<Rightarrow> fl \<Rightarrow> bool" where
  "fl_eq (Fin a) (Fin b) = (a = b)"
| "fl_eq PInf PInf = True"
| "fl_eq NInf NInf = True"
| "fl_eq (Fin a) PInf = False"
| "fl_eq (Fin a) NInf = False"
| "fl_eq (Fin a) NaN = False"
| "fl_eq PInf (Fin b) = False"
| "fl_eq PInf NInf = False"
| "fl_eq PInf NaN = False"
| "fl_eq NInf (Fin b) = False"
| "fl_eq NInf PInf = False"
| "fl_eq NInf NaN = False"
| "fl_eq NaN b = False"

text \<open>\<^verbatim>\<open>a < b\<close>: false as soon as one side is a NaN.\<close>

fun fl_less :: "fl \<Rightarrow> fl \<Rightarrow> bool" where
  "fl_less (Fin a) (Fin b) = (a < b)"
| "fl_less (Fin a) PInf = True"
| "fl_less (Fin a) NInf = False"
| "fl_less (Fin a) NaN = False"
| "fl_less PInf b = False"
| "fl_less NInf (Fin b) = True"
| "fl_less NInf PInf = True"
| "fl_less NInf NInf = False"
| "fl_less NInf NaN = False"
| "fl_less NaN b = False"

text \<open>\<^verbatim>\<open>a <= b\<close>.\<close>

fun fl_le :: "fl \<Rightarrow> fl \<Rightarrow> bool" where
  "fl_le (Fin a) (Fin b) = (a \<le> b)"
| "fl_le (Fin a) PInf = True"
| "fl_le (Fin a) NInf = False"
| "fl_le (Fin a) NaN = False"
| "fl_le PInf (Fin b) = False"
| "fl_le PInf PInf = True"
| "fl_le PInf NInf = False"
| "fl_le PInf NaN = False"
| "fl_le NInf (Fin b) = True"
| "fl_le NInf PInf = True"
| "fl_le NInf NInf = True"
| "fl_le NInf NaN = False"
| "fl_le NaN b = False"

fun fl_neg :: "fl \<Rightarrow> fl" where
  "fl_neg (Fin a) = Fin (- a)"
| "fl_neg PInf = NInf"
| "fl_neg NInf = PInf"
| "fl_neg NaN = NaN"

fun fl_abs :: "fl \<Rightarrow> fl" where
  "fl_abs (Fin a) = Fin \<bar>a\<bar>"
| "fl_abs PInf = PInf"
| "fl_abs NInf = PInf"
| "fl_abs NaN = NaN"

fun fl_add :: "fl \<Rightarrow> fl \<Rightarrow> fl" where
  "fl_add (Fin a) (Fin b) = Fin (a + b)"
| "fl_add (Fin a) PInf = PInf"
| "fl_add (Fin a) NInf = NInf"
| "fl_add (Fin a) NaN = NaN"
| "fl_add PInf (Fin b) = PInf"
| "fl_add PInf PInf = PInf"
| "fl_add PInf NInf = NaN"
| "fl_add PInf NaN = NaN"
| "fl_add NInf (Fin b) = NInf"
| "fl_add NInf PInf = NaN"
| "fl_add NInf NInf = NInf"
| "fl_add NInf NaN = NaN"
| "fl_add NaN b = NaN"

definition fl_sub :: "fl \<Rightarrow> fl \<Rightarrow> fl" where
  "fl_sub a b = fl_add a (fl_neg b)"

text \<open>The infinity with the sign of a nonzero real.\<close>

definition signed_inf :: "real \<Rightarrow> fl" where
  "signed_inf a = (if 0 < a then PInf else NInf)"

fun fl_mul :: "fl \<Rightarrow> fl \<Rightarrow> fl" where
  "fl_mul (Fin a) (Fin b) = Fin (a * b)"
| "fl_mul (Fin a) PInf = (if a = 0 then NaN else signed_inf a)"
| "fl_mul (Fin a) NInf = (if a = 0 then NaN else signed_inf (- a))"
| "fl_mul (Fin a) NaN = NaN"
| "fl_mul PInf (Fin b) = (if b = 0 then NaN else signed_inf b)"
| "fl_mul PInf PInf = PInf"
| "fl_mul PInf NInf = NInf"
| "fl_mul PInf NaN = NaN"
| "fl_mul NInf (Fin b) = (if b = 0 then NaN else signed_inf (- b))"
| "fl_mul NInf PInf = NInf"
| "fl_mul NInf NInf = PInf"
| "fl_mul NInf NaN = NaN"
| "fl_mul NaN b = NaN"

text \<open>
  numpy division does not raise: a finite nonzero value over zero is an infinity, zero
  over zero is a NaN (the zero is taken as positive).
\<close>

fun fl_div :: "fl \<Rightarrow> fl \<Rightarrow> fl" where
  "fl_div (Fin a) (Fin b) =
     (if b \<noteq> 0 then Fin (a / b) else if a = 0 then NaN else signed_inf a)"
| "fl_div (Fin a) PInf = Fin 0"
| "fl_div (Fin a) NInf = Fin 0"
| "fl_div (Fin a) NaN = NaN"
| "fl_div PInf (Fin b) = (if 0 \<le> b then PInf else NInf)"
| "fl_div PInf PInf = NaN"
| "fl_div PInf NInf = NaN"
| "fl_div PInf NaN = NaN"
| "fl_div NInf (Fin b) = (if 0 \<le> b then NInf else PInf)"
| "fl_div NInf PInf = NaN"
| "fl_div NInf NInf = NaN"
| "fl_div NInf NaN = NaN"
| "fl_div NaN b = NaN"

text \<open>
  \<^verbatim>\<open>x ** n\<close> for an integer exponent, as C's \<^verbatim>\<open>pow\<close> gives it: anything to the power 0
  is 1, also a NaN; zero to a negative power is an infinity.
\<close>

fun fl_powi :: "fl \<Rightarrow> int \<Rightarrow> fl" where
  "fl_powi (Fin a) n =
     (if 0 \<le> n then Fin (a ^ nat n)
      else if a = 0 then PInf else Fin (1 / a ^ nat (- n)))"
| "fl_powi PInf n = (if n = 0 then Fin 1 else if 0 < n then PInf else Fin 0)"
| "fl_powi NInf n =
     (if n = 0 then Fin 1 else if n < 0 then Fin 0 else if even n then PInf else NInf)"
| "fl_powi NaN n = (if n = 0 then Fin 1 else NaN)"

subsection \<open>Python's \<^verbatim>\<open>min\<close> and \<^verbatim>\<open>max\<close>\<close>

text \<open>
  The builtins walk the sequence and replace the running value when the next item
  compares smaller (larger); they raise ValueError on an empty sequence. With NaNs the
  result depends on the order of the items.
\<close>

definition py_max1 :: "fl \<Rightarrow> fl list \<Rightarrow> fl" where
  "py_max1 x xs = foldl (\<lambda>m v. if fl_less m v then v else m) x xs"

definition py_min1 :: "fl \<Rightarrow> fl list \<Rightarrow> fl" where
  "py_min1 x xs = foldl (\<lambda>m v. if fl_less v m then v else m) x xs"

fun py_max :: "fl list \<Rightarrow> error + fl" where
  "py_max [] = Inl ValueError"
| "py_max (x # xs) = Inr (py_max1 x xs)"

fun py_min :: "fl list \<Rightarrow> error + fl" where
  "py_min [] = Inl ValueError"
| "py_min (x # xs) = Inr (py_min1 x xs)"

fun py_max_index :: "nat list \<Rightarrow> error + nat" where
  "py_max_index [] = Inl ValueError"
| "py_max_index (i # is) = Inr (foldl max i is)"

subsection \<open>numpy helpers\<close>

text \<open>\<^verbatim>\<open>np.where(cond)[0]\<close>: the indices at which the condition holds, ascending.\<close>

definition np_where :: "('a \<Rightarrow> bool) \<Rightarrow> 'a list \<Rightarrow> nat list" where
  "np_where P xs = map fst (filter (\<lambda>p. P (snd p)) (enumerate 0 xs))"

text \<open>
  \<^verbatim>\<open>np.delete(arr, idx)\<close> for an array of indices: a copy without these positions;
  IndexError when an index is out of bounds.
\<close>

definition np_delete :: "'a list \<Rightarrow> nat list \<Rightarrow> error + 'a list" where
  "np_delete xs bad =
     (if list_all (\<lambda>i. i < length xs) bad
      then Inr (map snd (filter (\<lambda>p. fst p \<notin> set bad) (enumerate 0 xs)))
      else Inl IndexError)"

text \<open>
  An elementwise operation on two one-dimensional arrays: the shapes must be equal, or
  one of them has length 1 and is broadcast; anything else raises ValueError.
\<close>

definition bcast2 :: "(fl \<Rightarrow> fl \<Rightarrow> fl) \<Rightarrow> fl list \<Rightarrow> fl list \<Rightarrow> error + fl list" where
  "bcast2 f xs ys =
     (if length xs = length ys then Inr (map2 f xs ys)
      else if length xs = 1 then Inr (map (f (hd xs)) ys)
      else if length ys = 1 then Inr (map (\<lambda>x. f x (hd ys)) xs)
      else Inl ValueError)"

text \<open>Sequencing of fallible steps: the first exception ends the computation.\<close>

definition bind_err :: "error + 'a \<Rightarrow> ('a \<Rightarrow> error + 'b) \<Rightarrow> error + 'b" where
  "bind_err m f = (case m of Inl e \<Rightarrow> Inl e | Inr v \<Rightarrow> f v)"

section \<open>The array sanitizers\<close>

subsection \<open>\<^verbatim>\<open>remove_dups\<close>\<close>

text \<open>
  The indices \<^verbatim>\<open>dups\<close> are computed once, on the array as given; the loop then lowers
  \<^verbatim>\<open>arr[i]\<close> in place for each of them, reading neighbours that an earlier round may
  have changed. \<^verbatim>\<open>flatten\<close> copies, so the caller's array is untouched.
\<close>

definition dups_of :: "fl list \<Rightarrow> fl \<Rightarrow> nat list" where
  "dups_of arr tiny =
     np_where (\<lambda>d. fl_less d tiny) (map2 (\<lambda>a b. fl_abs (fl_sub a b)) (butlast arr) (tl arr))"

definition dup_step :: "fl \<Rightarrow> fl \<Rightarrow> fl list \<Rightarrow> nat \<Rightarrow> fl list" where
  "dup_step tiny fr arr i =
     (let t1 = (if 0 < i then [fl_mul fr (fl_abs (fl_sub (arr ! i) (arr ! (i - 1))))] else []);
          t2 = (if i < length arr - 1
                then [fl_mul fr (fl_abs (fl_sub (arr ! (i + 1)) (arr ! i)))] else []);
          dx = py_max1 tiny (t1 @ t2)
      in arr[i := fl_sub (arr ! i) dx])"

definition remove_dups :: "fl list \<Rightarrow> fl \<Rightarrow> fl \<Rightarrow> fl list" where
  "remove_dups arr tiny fr = foldl (dup_step tiny fr) arr (dups_of arr tiny)"

text \<open>The defaults \<^verbatim>\<open>tiny=1.e-8\<close> and \<^verbatim>\<open>frac=0.02\<close>.\<close>

definition tiny_default :: fl where
  "tiny_default = Fin (1 / 10 ^ 8)"

definition frac_default :: fl where
  "frac_default = Fin (2 / 100)"

subsection \<open>\<^verbatim>\<open>remove_nans2\<close>\<close>

text \<open>
  Each of the four blocks computes \<^verbatim>\<open>bad\<close> on the array as passed in (\<^verbatim>\<open>a\<close> or \<^verbatim>\<open>b\<close>)
  and deletes these positions from \<^verbatim>\<open>a1\<close> and \<^verbatim>\<open>b1\<close>, which earlier blocks may have
  shortened. The comparisons are \<^verbatim>\<open>== np.inf\<close> and \<^verbatim>\<open>== np.nan\<close>.
\<close>

definition delete_both :: "nat list \<Rightarrow> fl list \<times> fl list \<Rightarrow> error + (fl list \<times> fl list)" where
  "delete_both bad p =
     bind_err (np_delete (fst p) bad) (\<lambda>a1.
     bind_err (np_delete (snd p) bad) (\<lambda>b1. Inr (a1, b1)))"

definition remove_nans2 :: "fl list \<Rightarrow> fl list \<Rightarrow> error + (fl list \<times> fl list)" where
  "remove_nans2 a b =
     (if list_ex isinf a \<or> list_ex isinf b \<or> list_ex isnan a \<or> list_ex isnan b then
        bind_err (if list_ex isinf a
                  then delete_both (np_where (\<lambda>x. fl_eq x PInf) a) (a, b)
                  else Inr (a, b)) (\<lambda>p1.
        bind_err (if list_ex isinf b
                  then delete_both (np_where (\<lambda>x. fl_eq x PInf) b) p1
                  else Inr p1) (\<lambda>p2.
        bind_err (if list_ex isnan a
                  then delete_both (np_where (\<lambda>x. fl_eq x NaN) a) p2
                  else Inr p2) (\<lambda>p3.
        (if list_ex isnan b
         then delete_both (np_where (\<lambda>x. fl_eq x NaN) b) p3
         else Inr p3))))
      else Inr (a, b))"

text \<open>
  A pair of arrays is paired with the inputs \<open>a\<close> and \<open>b\<close> when it holds their entries at
  one increasing list of indices.
\<close>

definition paired :: "fl list \<Rightarrow> fl list \<Rightarrow> fl list \<times> fl list \<Rightarrow> bool" where
  "paired a b p \<longleftrightarrow>
     (\<exists>idx. sorted_wrt (<) idx \<and> set idx \<subseteq> {..<length a} \<and>
            fst p = map ((!) a) idx \<and> snd p = map ((!) b) idx)"

section \<open>Index lookup\<close>

text \<open>\<^verbatim>\<open>arr[i]\<close> for \<open>i \<ge> 0\<close>, \<^verbatim>\<open>arr[-1]\<close> and \<^verbatim>\<open>arr[p1:p2]\<close> for \<open>p1, p2 \<ge> 0\<close>.\<close>

definition getitem :: "'a list \<Rightarrow> nat \<Rightarrow> error + 'a" where
  "getitem xs i = (if i < length xs then Inr (xs ! i) else Inl IndexError)"

definition getlast :: "'a list \<Rightarrow> error + 'a" where
  "getlast xs = (if xs = [] then Inl IndexError else Inr (last xs))"

definition slice :: "'a list \<Rightarrow> nat \<Rightarrow> nat \<Rightarrow> 'a list" where
  "slice xs p1 p2 = drop p1 (take p2 xs)"

text \<open>
  \<^verbatim>\<open>index_of\<close>: 0 when the value is below \<^verbatim>\<open>min(arrval)\<close>, else the largest index
  holding an entry at or below the value; \<^verbatim>\<open>max\<close> of no index raises ValueError.
\<close>

definition index_of :: "fl list \<Rightarrow> fl \<Rightarrow> error + nat" where
  "index_of arrval v =
     bind_err (py_min arrval) (\<lambda>m.
       if fl_less v m then Inr 0
       else py_max_index (np_where (\<lambda>x. fl_le x v) arrval))"

text \<open>
  \<^verbatim>\<open>argmin\<close> of numpy: the first index of the smallest entry, where a NaN counts as
  smallest: the scan replaces the running minimum \<open>mp\<close> when \<^verbatim>\<open>!(x >= mp)\<close> and
  stops at the first NaN. ValueError on an empty array.
\<close>

fun argmin_from :: "fl \<Rightarrow> nat \<Rightarrow> nat \<Rightarrow> fl list \<Rightarrow> nat" where
  "argmin_from mp mi i [] = mi"
| "argmin_from mp mi i (x # xs) =
     (if isnan mp then mi
      else if \<not> fl_le mp x then argmin_from x i (Suc i) xs
      else argmin_from mp mi (Suc i) xs)"

fun np_argmin :: "fl list \<Rightarrow> error + nat" where
  "np_argmin [] = Inl ValueError"
| "np_argmin (x # xs) = Inr (argmin_from x 0 1 xs)"

definition index_nearest :: "fl list \<Rightarrow> fl \<Rightarrow> error + nat" where
  "index_nearest array v = np_argmin (map (\<lambda>x. fl_abs (fl_sub x v)) array)"

section \<open>Locating the edge\<close>

text \<open>
  \<^verbatim>\<open>np.gradient\<close> with unit spacing: one-sided differences at the two ends, half the
  central difference inside; ValueError below two samples.
\<close>

fun grad_interior :: "fl list \<Rightarrow> fl list" where
  "grad_interior (a # b # c # xs) = fl_div (fl_sub c a) (Fin 2) # grad_interior (b # c # xs)"
| "grad_interior [a, b] = []"
| "grad_interior [a] = []"
| "grad_interior [] = []"

definition np_gradient :: "fl list \<Rightarrow> error + fl list" where
  "np_gradient f =
     (if length f < 2 then Inl ValueError
      else Inr ([fl_sub (f ! 1) (f ! 0)] @ grad_interior f
                @ [fl_sub (last f) (last (butlast f))]))"

text \<open>
  The loop over \<^verbatim>\<open>high_deriv_pts\<close>: the state is \<^verbatim>\<open>(idmu_max, dmu_max)\<close>, from
  \<^verbatim>\<open>(0, 0)\<close>. For \<open>i = 0\<close> the test \<^verbatim>\<open>i-1 in high_deriv_pts\<close> looks for -1 and fails.
\<close>

definition deriv_step :: "fl list \<Rightarrow> nat list \<Rightarrow> nat \<times> fl \<Rightarrow> nat \<Rightarrow> nat \<times> fl" where
  "deriv_step dmu pts s i =
     (if fl_less (snd s) (dmu ! i) \<and> i + 1 \<in> set pts \<and> 0 < i \<and> i - 1 \<in> set pts
      then (i, dmu ! i) else s)"

definition high_deriv_pts :: "fl list \<Rightarrow> error + nat list" where
  "high_deriv_pts dmu =
     bind_err (py_max dmu) (\<lambda>m. Inr (np_where (\<lambda>d. fl_less (fl_mul m (Fin (5 / 100))) d) dmu))"

definition idmu_max_of :: "fl list \<Rightarrow> nat list \<Rightarrow> nat" where
  "idmu_max_of dmu pts = fst (foldl (deriv_step dmu pts) (0, Fin 0) pts)"

text \<open>
  The test of the loop on an index \<open>i\<close> of \<^verbatim>\<open>high_deriv_pts\<close>, apart from the comparison
  with \<^verbatim>\<open>dmu_max\<close>: both neighbours of \<open>i\<close> are in \<^verbatim>\<open>high_deriv_pts\<close> as well.
\<close>

definition supported :: "nat list \<Rightarrow> nat \<Rightarrow> bool" where
  "supported pts i \<longleftrightarrow> i \<in> set pts \<and> i + 1 \<in> set pts \<and> 0 < i \<and> i - 1 \<in> set pts"

text \<open>
  Lines 177 to 188: the energies are de-duplicated once more, and the edge is the energy
  at \<^verbatim>\<open>idmu_max\<close>. The result is the pair of the energies used from here on and of the
  edge.
\<close>

definition derive_e0 :: "fl list \<Rightarrow> fl list \<Rightarrow> error + (fl list \<times> fl)" where
  "derive_e0 energy mu =
     (let energy2 = remove_dups energy tiny_default frac_default in
      bind_err (np_gradient mu) (\<lambda>gmu.
      bind_err (np_gradient energy2) (\<lambda>gen.
      bind_err (bcast2 fl_div gmu gen) (\<lambda>dmu.
      bind_err (high_deriv_pts dmu) (\<lambda>pts.
      bind_err (getitem energy2 (idmu_max_of dmu pts)) (\<lambda>v. Inr (energy2, v)))))))"

text \<open>
  Lines 174 to 188: \<^verbatim>\<open>e0 is None or e0 < energy[0] or e0 > energy[-1]\<close>, evaluated from
  the left on the de-duplicated energies.
\<close>

definition locate_e0 :: "fl list \<Rightarrow> fl list \<Rightarrow> fl option \<Rightarrow> error + (fl list \<times> fl)" where
  "locate_e0 energy mu e0 =
     (let energy1 = remove_dups energy tiny_default frac_default in
      case e0 of
        None \<Rightarrow> derive_e0 energy1 mu
      | Some v \<Rightarrow>
          bind_err (getitem energy1 0) (\<lambda>lo.
            if fl_less v lo then derive_e0 energy1 mu
            else bind_err (getlast energy1) (\<lambda>hi.
              if fl_less hi v then derive_e0 energy1 mu else Inr (energy1, v))))"

section \<open>Fit windows\<close>

text \<open>
  Lines 193 to 202. \<^verbatim>\<open>max(a, b)\<close> of two arguments keeps \<open>a\<close> unless \<open>b\<close> compares larger,
  \<^verbatim>\<open>min(a, b)\<close> keeps \<open>a\<close> unless \<open>b\<close> compares smaller. The result is
  \<^verbatim>\<open>(pre1, pre2, norm1, norm2)\<close>.
\<close>

definition resolve_ranges ::
  "fl list \<Rightarrow> fl \<Rightarrow> fl option \<Rightarrow> fl \<Rightarrow> fl \<Rightarrow> fl option \<Rightarrow> error + (fl \<times> fl \<times> fl \<times> fl)" where
  "resolve_ranges energy e0 pre1 pre2 norm1 norm2 =
     bind_err (py_min energy) (\<lambda>emin.
     bind_err (py_max energy) (\<lambda>emax.
       let pre1a = (case pre1 of None \<Rightarrow> fl_sub emin e0 | Some v \<Rightarrow> v);
           norm2a = (case norm2 of None \<Rightarrow> fl_sub emax e0 | Some v \<Rightarrow> v);
           norm2b = (if fl_less norm2a (Fin 0) then fl_sub (fl_sub emax e0) norm2a else norm2a);
           pre1b = py_max1 pre1a [fl_sub emin e0];
           norm2c = py_min1 norm2b [fl_sub emax e0];
           pre = (if fl_less pre2 pre1b then (pre2, pre1b) else (pre1b, pre2));
           nrm = (if fl_less norm2c norm1 then (norm2c, norm1) else (norm1, norm2c))
       in Inr (fst pre, snd pre, fst nrm, snd nrm)))"

text \<open>
  Lines 204 to 207, and again 214 to 217: the index range \<^verbatim>\<open>[p1:p2]\<close> of the window
  between the absolute energies \<open>lo\<close> and \<open>hi\<close>.
\<close>

definition fit_window :: "fl list \<Rightarrow> fl \<Rightarrow> fl \<Rightarrow> error + (nat \<times> nat)" where
  "fit_window energy lo hi =
     bind_err (index_of energy lo) (\<lambda>p1.
     bind_err (index_nearest energy hi) (\<lambda>p2.
       Inr (p1, if int p2 - int p1 < 2 then min (length energy) (p1 + 2) else p2)))"

section \<open>Fits and normalization\<close>

text \<open>
  \<^verbatim>\<open>polyfit\<close> comes from scipy and is no part of this repository: \<^verbatim>\<open>preedge\<close> takes it as
  the parameter \<open>pf\<close>, from the abscissae, the ordinates and the degree to the
  coefficients, highest power first, or to an exception.
\<close>

type_synonym fitter = "fl list \<Rightarrow> fl list \<Rightarrow> nat \<Rightarrow> error + fl list"

text \<open>
  \<^verbatim>\<open>post_edge\<close> starts as the number 0 and becomes an array with the first \<^verbatim>\<open>+=\<close>.
\<close>

datatype npval = Scalar fl | Array "fl list"

fun np_iadd :: "npval \<Rightarrow> fl list \<Rightarrow> npval" where
  "np_iadd (Scalar s) ys = Array (map (fl_add s) ys)"
| "np_iadd (Array xs) ys = Array (map2 fl_add xs ys)"

definition pre_edge_curve :: "fl list \<Rightarrow> fl list \<Rightarrow> int \<Rightarrow> error + fl list" where
  "pre_edge_curve precoefs energy nvict =
     bind_err (getitem precoefs 0) (\<lambda>c0.
     bind_err (getitem precoefs 1) (\<lambda>c1.
       Inr (map (\<lambda>x. fl_mul (fl_add (fl_mul c0 x) c1) (fl_powi x (- nvict))) energy)))"

definition post_edge_curve :: "fl list \<Rightarrow> fl list \<Rightarrow> int \<Rightarrow> npval" where
  "post_edge_curve coefs energy nvict =
     foldl (\<lambda>acc p. np_iadd acc (map (\<lambda>x. fl_mul (snd p) (fl_powi x (int (fst p) - nvict))) energy))
       (Scalar (Fin 0)) (enumerate 0 (rev coefs))"

definition derived_step :: "npval \<Rightarrow> fl list \<Rightarrow> nat \<Rightarrow> error + fl" where
  "derived_step post pre ie0 =
     (case post of
        Scalar s \<Rightarrow> Inl TypeError
      | Array ps \<Rightarrow> bind_err (getitem ps ie0) (\<lambda>a.
                    bind_err (getitem pre ie0) (\<lambda>b. Inr (fl_sub a b))))"

record outcome =
  o_e0 :: fl
  o_edge_step :: fl
  o_norm :: "fl list"
  o_pre_edge :: "fl list"
  o_post_edge :: npval
  o_norm_coefs :: "fl list"
  o_nvict :: int
  o_nnorm :: int
  o_norm1 :: fl
  o_norm2 :: fl
  o_pre1 :: fl
  o_pre2 :: fl
  o_precoefs :: "fl list"

text \<open>
  Everything \<^verbatim>\<open>preedge\<close> computes before it looks at \<^verbatim>\<open>step\<close> (lines 174 to 223): the
  record, whose fields \<open>o_edge_step\<close> and \<open>o_norm\<close> are set afterwards by
  \<open>normalize_mu\<close>, and the index \<^verbatim>\<open>ie0\<close>.
\<close>

definition preedge_fits ::
  "fitter \<Rightarrow> fl list \<Rightarrow> fl list \<Rightarrow> fl option \<Rightarrow> int \<Rightarrow> int \<Rightarrow> fl option \<Rightarrow> fl \<Rightarrow> fl \<Rightarrow> fl option
     \<Rightarrow> error + (outcome \<times> nat)" where
  "preedge_fits pf energy0 mu e0 nnorm0 nvict pre1 pre2 norm1 norm2 =
     bind_err (locate_e0 energy0 mu e0) (\<lambda>loc.
     let energy = fst loc; nnorm = max (min nnorm0 5) 1 in
     bind_err (index_nearest energy (snd loc)) (\<lambda>ie0.
     bind_err (getitem energy ie0) (\<lambda>e0v.
     bind_err (resolve_ranges energy e0v pre1 pre2 norm1 norm2) (\<lambda>rg.
     let pre1r = fst rg; pre2r = fst (snd rg);
         norm1r = fst (snd (snd rg)); norm2r = snd (snd (snd rg)) in
     bind_err (fit_window energy (fl_add pre1r e0v) (fl_add pre2r e0v)) (\<lambda>w.
     bind_err (bcast2 fl_mul mu (map (\<lambda>x. fl_powi x nvict) energy)) (\<lambda>omu.
     bind_err (remove_nans2 (slice energy (fst w) (snd w)) (slice omu (fst w) (snd w))) (\<lambda>exmx.
     bind_err (pf (fst exmx) (snd exmx) 1) (\<lambda>precoefs.
     bind_err (pre_edge_curve precoefs energy nvict) (\<lambda>pre_edge.
     bind_err (fit_window energy (fl_add norm1r e0v) (fl_add norm2r e0v)) (\<lambda>w2.
     bind_err (pf (slice energy (fst w2) (snd w2)) (slice omu (fst w2) (snd w2)) (nat nnorm))
       (\<lambda>coefs.
       Inr (\<lparr>o_e0 = e0v, o_edge_step = Fin 0, o_norm = [],
             o_pre_edge = pre_edge, o_post_edge = post_edge_curve coefs energy nvict,
             o_norm_coefs = rev coefs, o_nvict = nvict, o_nnorm = nnorm,
             o_norm1 = norm1r, o_norm2 = norm2r, o_pre1 = pre1r, o_pre2 = pre2r,
             o_precoefs = precoefs\<rparr>, ie0))))))))))))"

text \<open>Lines 224 to 235: the edge step, the normalized spectrum and the dictionary.\<close>

definition normalize_mu :: "fl list \<Rightarrow> fl option \<Rightarrow> outcome \<times> nat \<Rightarrow> error + outcome" where
  "normalize_mu mu step fits =
     bind_err (case step of
                 Some s \<Rightarrow> Inr s
               | None \<Rightarrow> derived_step (o_post_edge (fst fits)) (o_pre_edge (fst fits)) (snd fits))
       (\<lambda>edge_step.
     bind_err (bcast2 fl_sub mu (o_pre_edge (fst fits))) (\<lambda>d.
       Inr ((fst fits)\<lparr>o_edge_step := edge_step, o_norm := map (\<lambda>x. fl_div x edge_step) d\<rparr>)))"

definition preedge ::
  "fitter \<Rightarrow> fl list \<Rightarrow> fl list \<Rightarrow> fl option \<Rightarrow> fl option \<Rightarrow> int \<Rightarrow> int \<Rightarrow> fl option \<Rightarrow> fl \<Rightarrow> fl
     \<Rightarrow> fl option \<Rightarrow> error + outcome" where
  "preedge pf energy mu e0 step nnorm nvict pre1 pre2 norm1 norm2 =
     bind_err (preedge_fits pf energy mu e0 nnorm nvict pre1 pre2 norm1 norm2) (normalize_mu mu step)"

text \<open>
  For ordinates that are all zero, the least-squares polynomial of any degree is the zero
  polynomial, however few the points are. \<open>zero_fit\<close> is \<^verbatim>\<open>polyfit\<close> on such data, with
  its check that the abscissae are not empty and as many as the ordinates; it gives up
  on any other data.
\<close>

definition zero_fit :: fitter where
  "zero_fit x y deg =
     (if x = [] \<or> length x \<noteq> length y then Inl TypeError
      else if list_all isfinite x \<and> list_all (\<lambda>v. v = Fin 0) y
      then Inr (replicate (deg + 1) (Fin 0))
      else Inl LinAlgError)"

section \<open>Running the model\<close>

text \<open>The equations that evaluate the model on given arrays.\<close>

lemmas run_defs = preedge_def preedge_fits_def normalize_mu_def locate_e0_def derive_e0_def
  remove_dups_def dups_of_def np_where_def dup_step_def py_max1_def py_min1_def
  tiny_default_def frac_default_def fl_sub_def bind_err_def getitem_def getlast_def
  index_nearest_def resolve_ranges_def fit_window_def index_of_def bcast2_def slice_def
  remove_nans2_def delete_both_def np_delete_def zero_fit_def pre_edge_curve_def
  post_edge_curve_def derived_step_def np_gradient_def high_deriv_pts_def idmu_max_of_def
  deriv_step_def signed_inf_def Let_def numeral_eq_Suc

section \<open>Properties of the sanitizers\<close>

lemma np_where_Nil: "\<forall>x\<in>set xs. \<not> P x \<Longrightarrow> np_where P xs = []"
  unfolding np_where_def by (auto simp: filter_empty_conv enumerate_eq_zip dest: set_zip_rightD)



text \<open>
  C1 says that \<^verbatim>\<open>remove_nans2\<close> returns the entries at the indices where neither array
  holds a NaN or an infinity, in their order. The code does not, on the example of its
  own docstring: the NaN at index 3 of the first array stays, and so does its partner 4
  in the second array, where the docstring announces \<^verbatim>\<open>[0, 1.1, 2.2, 3.3]\<close> and
  \<^verbatim>\<open>[1, 2, 3, 5]\<close>. The test \<^verbatim>\<open>a == np.nan\<close> is never true, so no NaN is ever deleted.
\<close>

theorem remove_nans2_docstring_example:
  "remove_nans2 [Fin 0, Fin 1.1, Fin 2.2, NaN, Fin 3.3] [Fin 1, Fin 2, Fin 3, Fin 4, Fin 5]
     = Inr ([Fin 0, Fin 1.1, Fin 2.2, NaN, Fin 3.3], [Fin 1, Fin 2, Fin 3, Fin 4, Fin 5])"
  by (simp add: remove_nans2_def np_where_def delete_both_def bind_err_def np_delete_def)





section \<open>Comparisons, minima and nearest indices\<close>

lemma bind_err_Inr: "bind_err m f = Inr y \<longleftrightarrow> (\<exists>v. m = Inr v \<and> f v = Inr y)"
  by (cases m) (simp_all add: bind_err_def)

lemma fl_add_NaN_right [simp]: "fl_add a NaN = NaN"
  by (cases a) simp_all

lemma fl_sub_NaN [simp]: "fl_sub a NaN = NaN" "fl_sub NaN b = NaN"
  by (simp_all add: fl_sub_def)

lemma isnan_iff: "isnan x \<longleftrightarrow> x = NaN"
  by (cases x) simp_all

lemma fl_less_not_nan: "fl_less a b \<Longrightarrow> \<not> isnan a \<and> \<not> isnan b"
  by (cases a; cases b) simp_all

lemma fl_le_not_nan: "fl_le a b \<Longrightarrow> \<not> isnan a \<and> \<not> isnan b"
  by (cases a; cases b) simp_all

lemma fl_le_trans: "fl_le a b \<Longrightarrow> fl_le b c \<Longrightarrow> fl_le a c"
  by (cases a; cases b; cases c) simp_all

lemma fl_less_trans: "fl_less a b \<Longrightarrow> fl_less b c \<Longrightarrow> fl_less a c"
  by (cases a; cases b; cases c) simp_all

lemma fl_less_imp_le: "fl_less a b \<Longrightarrow> fl_le a b"
  by (cases a; cases b) simp_all

lemma fl_not_less_le: "\<not> fl_less a b \<Longrightarrow> \<not> isnan a \<Longrightarrow> \<not> isnan b \<Longrightarrow> fl_le b a"
  by (cases a; cases b) simp_all

lemma fl_le_refl: "\<not> isnan a \<Longrightarrow> fl_le a a"
  by (cases a) simp_all

lemma py_min1_bound:
  "\<not> isnan m \<Longrightarrow> \<not> isnan (py_min1 m xs) \<and> fl_le (py_min1 m xs) m \<and>
     (\<forall>y\<in>set xs. \<not> isnan y \<longrightarrow> fl_le (py_min1 m xs) y)"
proof (induction xs arbitrary: m)
  case Nil
  then show ?case by (simp add: py_min1_def fl_le_refl)
next
  case (Cons x xs)
  define m' where "m' = (if fl_less x m then x else m)"
  have step: "py_min1 m (x # xs) = py_min1 m' xs"
    by (simp add: py_min1_def m'_def)
  have nn: "\<not> isnan m'"
    using Cons.prems fl_less_not_nan [of x m] by (auto simp: m'_def)
  have le_m: "fl_le m' m"
    using Cons.prems by (auto simp: m'_def fl_less_imp_le fl_le_refl)
  have le_x: "\<not> isnan x \<Longrightarrow> fl_le m' x"
    using Cons.prems by (auto simp: m'_def fl_le_refl fl_not_less_le)
  from Cons.IH [OF nn] show ?case
    unfolding step using le_m le_x by (auto intro: fl_le_trans)
qed

lemma py_max1_bound:
  "\<not> isnan m \<Longrightarrow> \<not> isnan (py_max1 m xs) \<and> fl_le m (py_max1 m xs) \<and>
     (\<forall>y\<in>set xs. \<not> isnan y \<longrightarrow> fl_le y (py_max1 m xs))"
proof (induction xs arbitrary: m)
  case Nil
  then show ?case by (simp add: py_max1_def fl_le_refl)
next
  case (Cons x xs)
  define m' where "m' = (if fl_less m x then x else m)"
  have step: "py_max1 m (x # xs) = py_max1 m' xs"
    by (simp add: py_max1_def m'_def)
  have nn: "\<not> isnan m'"
    using Cons.prems fl_less_not_nan [of m x] by (auto simp: m'_def)
  have le_m: "fl_le m m'"
    using Cons.prems by (auto simp: m'_def fl_less_imp_le fl_le_refl)
  have le_x: "\<not> isnan x \<Longrightarrow> fl_le x m'"
    using Cons.prems by (auto simp: m'_def fl_le_refl fl_not_less_le)
  from Cons.IH [OF nn] show ?case
    unfolding step using le_m le_x by (auto intro: fl_le_trans)
qed

lemma argmin_from_nan: "isnan mp \<Longrightarrow> argmin_from mp mi i xs = mi"
  by (cases xs) simp_all

lemma argmin_from_less:
  "mi < i \<Longrightarrow> argmin_from mp mi i xs < i + length xs"
proof (induction xs arbitrary: mp mi i)
  case Nil
  then show ?case by simp
next
  case (Cons x xs)
  have a: "argmin_from x i (Suc i) xs < Suc i + length xs"
    by (rule Cons.IH) simp
  have b: "argmin_from mp mi (Suc i) xs < Suc i + length xs"
    by (rule Cons.IH) (use Cons.prems in simp)
  show ?case using a b Cons.prems by simp
qed

lemma index_nearest_less:
  assumes "index_nearest en v = Inr i"
  shows "i < length en"
proof (cases en)
  case Nil
  with assms show ?thesis by (simp add: index_nearest_def)
next
  case (Cons x xs)
  have "argmin_from (fl_abs (fl_sub x v)) 0 1 (map (\<lambda>x. fl_abs (fl_sub x v)) xs)
          < 1 + length (map (\<lambda>x. fl_abs (fl_sub x v)) xs)"
    by (rule argmin_from_less) simp
  then show ?thesis using Cons assms by (auto simp: index_nearest_def)
qed

lemma index_nearest_nan_head:
  assumes "index_nearest en v = Inr i" and "\<not> isnan (en ! i)"
  shows "en \<noteq> [] \<and> \<not> isnan (hd en)"
proof (cases en)
  case Nil
  with assms show ?thesis by (simp add: index_nearest_def)
next
  case (Cons x xs)
  show ?thesis
  proof (rule ccontr)
    assume "\<not> ?thesis"
    with Cons have "isnan x" by simp
    then have "isnan (fl_abs (fl_sub x v))" by (simp add: isnan_iff)
    with assms(1) Cons have "i = 0"
      by (simp add: index_nearest_def argmin_from_nan)
    with assms(2) Cons \<open>isnan x\<close> show False by simp
  qed
qed

lemma np_where_nonempty: "np_where P xs \<noteq> [] \<Longrightarrow> \<exists>x\<in>set xs. P x"
  using np_where_Nil [of xs P] by blast

lemma set_np_where: "set (np_where P xs) = {i. i < length xs \<and> P (xs ! i)}"
proof (intro set_eqI iffI)
  fix i assume "i \<in> set (np_where P xs)"
  then obtain p where "p \<in> set (enumerate 0 xs)" "P (snd p)" "i = fst p"
    by (auto simp: np_where_def)
  then show "i \<in> {i. i < length xs \<and> P (xs ! i)}"
    by (simp add: in_set_enumerate_eq)
next
  fix i assume "i \<in> {i. i < length xs \<and> P (xs ! i)}"
  then have "(i, xs ! i) \<in> set (enumerate 0 xs)" "P (snd (i, xs ! i))"
    by (simp_all add: in_set_enumerate_eq)
  then have "fst (i, xs ! i) \<in> fst ` {p \<in> set (enumerate 0 xs). P (snd p)}"
    by (intro imageI) simp
  then show "i \<in> set (np_where P xs)"
    by (simp add: np_where_def)
qed

lemma foldl_max_in: "foldl max (i::nat) js \<in> set (i # js)"
  by (induction js arbitrary: i) (auto simp: max_def split: if_splits)

lemma py_max_index_in: "py_max_index js = Inr p \<Longrightarrow> p \<in> set js"
  using foldl_max_in by (cases js) auto

lemma index_of_less:
  assumes "index_of arr v = Inr p"
  shows "p < length arr"
proof -
  from assms obtain m where m: "py_min arr = Inr m"
    and r: "(if fl_less v m then Inr 0 else py_max_index (np_where (\<lambda>x. fl_le x v) arr)) = Inr p"
    by (auto simp: index_of_def bind_err_Inr)
  from m have ne: "arr \<noteq> []" by (cases arr) auto
  show ?thesis
  proof (cases "fl_less v m")
    case True
    with r ne show ?thesis by simp
  next
    case False
    with r have "p \<in> set (np_where (\<lambda>x. fl_le x v) arr)"
      by (simp add: py_max_index_in)
    then show ?thesis by (simp add: set_np_where)
  qed
qed

lemma index_of_not_nan:
  assumes "index_of arr v = Inr p"
  shows "\<not> isnan v"
proof -
  from assms obtain m where m: "py_min arr = Inr m"
    and r: "(if fl_less v m then Inr 0 else py_max_index (np_where (\<lambda>x. fl_le x v) arr)) = Inr p"
    by (auto simp: index_of_def bind_err_Inr)
  show ?thesis
  proof (cases "fl_less v m")
    case True
    then show ?thesis using fl_less_not_nan by blast
  next
    case False
    with r have "p \<in> set (np_where (\<lambda>x. fl_le x v) arr)"
      by (simp add: py_max_index_in)
    then have "fl_le (arr ! p) v" by (simp add: set_np_where)
    then show ?thesis using fl_le_not_nan by blast
  qed
qed

lemma fit_window_lo_not_nan: "fit_window en lo hi = Inr w \<Longrightarrow> \<not> isnan lo"
  by (auto simp: fit_window_def bind_err_Inr dest: index_of_not_nan)

lemma fl_add_not_nan: "\<not> isnan (fl_add a b) \<Longrightarrow> \<not> isnan a \<and> \<not> isnan b"
  by (cases a; cases b) simp_all

lemma getitem_Inr: "getitem xs i = Inr v \<longleftrightarrow> i < length xs \<and> v = xs ! i"
  by (auto simp: getitem_def)

text \<open>What a successful run of the stages before the step went through.\<close>

lemma preedge_fits_InrD:
  assumes "preedge_fits pf energy mu e0 nnorm nvict pre1 pre2 norm1 norm2 = Inr (r, ie0)"
  obtains en v p1r p2r n1r n2r w omu ex mx precoefs pre_edge w2 coefs where
    "locate_e0 energy mu e0 = Inr (en, v)"
    "index_nearest en v = Inr ie0"
    "ie0 < length en"
    "resolve_ranges en (en ! ie0) pre1 pre2 norm1 norm2 = Inr (p1r, p2r, n1r, n2r)"
    "fit_window en (fl_add p1r (en ! ie0)) (fl_add p2r (en ! ie0)) = Inr w"
    "bcast2 fl_mul mu (map (\<lambda>x. fl_powi x nvict) en) = Inr omu"
    "remove_nans2 (slice en (fst w) (snd w)) (slice omu (fst w) (snd w)) = Inr (ex, mx)"
    "pf ex mx 1 = Inr precoefs"
    "pre_edge_curve precoefs en nvict = Inr pre_edge"
    "fit_window en (fl_add n1r (en ! ie0)) (fl_add n2r (en ! ie0)) = Inr w2"
    "pf (slice en (fst w2) (snd w2)) (slice omu (fst w2) (snd w2)) (nat (max (min nnorm 5) 1)) = Inr coefs"
    "r = \<lparr>o_e0 = en ! ie0, o_edge_step = Fin 0, o_norm = [],
          o_pre_edge = pre_edge, o_post_edge = post_edge_curve coefs en nvict,
          o_norm_coefs = rev coefs, o_nvict = nvict, o_nnorm = max (min nnorm 5) 1,
          o_norm1 = n1r, o_norm2 = n2r, o_pre1 = p1r, o_pre2 = p2r,
          o_precoefs = precoefs\<rparr>"
  using assms unfolding preedge_fits_def Let_def bind_err_Inr getitem_Inr
  by (elim exE conjE) (auto simp: Let_def)

section \<open>The edge energy of a successful run\<close>

lemma preedge_InrD:
  assumes "preedge pf energy mu e0 step nnorm nvict pre1 pre2 norm1 norm2 = Inr r"
  obtains f ie0 where
    "preedge_fits pf energy mu e0 nnorm nvict pre1 pre2 norm1 norm2 = Inr (f, ie0)"
    "normalize_mu mu step (f, ie0) = Inr r"
  using assms unfolding preedge_def bind_err_Inr by auto

lemma normalize_mu_fields:
  assumes "normalize_mu mu step (f, ie0) = Inr r"
  shows "o_e0 r = o_e0 f" "o_norm1 r = o_norm1 f" "o_norm2 r = o_norm2 f"
    "o_pre1 r = o_pre1 f" "o_pre2 r = o_pre2 f" "o_precoefs r = o_precoefs f"
    "o_norm_coefs r = o_norm_coefs f" "o_nnorm r = o_nnorm f" "o_nvict r = o_nvict f"
    "o_pre_edge r = o_pre_edge f" "o_post_edge r = o_post_edge f"
  using assms unfolding normalize_mu_def bind_err_Inr by auto

text \<open>
  On a successful run the edge is not a NaN, as \<^verbatim>\<open>index_of\<close> raises on a NaN; then the
  first energy is no NaN either, and \<^verbatim>\<open>min\<close> and \<^verbatim>\<open>max\<close> bound every entry that is
  not a NaN.
\<close>

lemma preedge_fits_span:
  assumes "preedge_fits pf energy mu e0 nnorm nvict pre1 pre2 norm1 norm2 = Inr (f, ie0)"
  shows "\<exists>en v emin emax. locate_e0 energy mu e0 = Inr (en, v) \<and> index_nearest en v = Inr ie0 \<and>
           ie0 < length en \<and> o_e0 f = en ! ie0 \<and> \<not> isnan (o_e0 f) \<and>
           py_min en = Inr emin \<and> py_max en = Inr emax \<and>
           fl_le emin (o_e0 f) \<and> fl_le (o_e0 f) emax"
proof -
  from assms obtain en v p1r p2r w where
    loc: "locate_e0 energy mu e0 = Inr (en, v)" and
    near: "index_nearest en v = Inr ie0" and
    less: "ie0 < length en" and
    win: "fit_window en (fl_add p1r (en ! ie0)) (fl_add p2r (en ! ie0)) = Inr w" and
    e0f: "o_e0 f = en ! ie0"
    by (elim preedge_fits_InrD) simp
  have nn: "\<not> isnan (en ! ie0)"
    using fit_window_lo_not_nan [OF win] fl_add_not_nan by blast
  from index_nearest_nan_head [OF near nn] obtain x xs where
    en: "en = x # xs" and x: "\<not> isnan x"
    by (cases en) auto
  have mem: "en ! ie0 = x \<or> en ! ie0 \<in> set xs"
    using less en by (cases ie0) auto
  have "fl_le (py_min1 x xs) (en ! ie0)"
    using py_min1_bound [OF x, of xs] mem nn by auto
  moreover have "fl_le (en ! ie0) (py_max1 x xs)"
    using py_max1_bound [OF x, of xs] mem nn by auto
  ultimately show ?thesis
    using loc near less e0f nn en by simp
qed

lemma run_between:
  "preedge zero_fit [Fin 0, Fin 1, Fin 2] [Fin 0, Fin 0, Fin 0] (Some (Fin 1.2)) None 3 0
     None (Fin (- 50)) (Fin 100) None
   = Inr \<lparr>o_e0 = Fin 1, o_edge_step = Fin 0, o_norm = [NaN, NaN, NaN],
          o_pre_edge = [Fin 0, Fin 0, Fin 0], o_post_edge = Array [Fin 0, Fin 0, Fin 0],
          o_norm_coefs = [Fin 0, Fin 0, Fin 0, Fin 0], o_nvict = 0, o_nnorm = 3,
          o_norm1 = Fin 1, o_norm2 = Fin 100, o_pre1 = Fin (- 50), o_pre2 = Fin (- 1),
          o_precoefs = [Fin 0, Fin 0]\<rparr>"
  by (simp add: run_defs)

text \<open>
  C7: whenever \<^verbatim>\<open>preedge\<close> returns, the edge energy \<^verbatim>\<open>e0\<close> of the returned record lies
  between \<^verbatim>\<open>min(energy)\<close> and \<^verbatim>\<open>max(energy)\<close> of the de-duplicated energies the run
  works on.
\<close>

theorem preedge_e0_within_span:
  assumes "preedge pf energy mu e0 step nnorm nvict pre1 pre2 norm1 norm2 = Inr r"
  shows "\<exists>en v emin emax. locate_e0 energy mu e0 = Inr (en, v) \<and>
           py_min en = Inr emin \<and> py_max en = Inr emax \<and>
           fl_le emin (o_e0 r) \<and> fl_le (o_e0 r) emax"
proof -
  from assms obtain f ie0 where
    fits: "preedge_fits pf energy mu e0 nnorm nvict pre1 pre2 norm1 norm2 = Inr (f, ie0)" and
    nrm: "normalize_mu mu step (f, ie0) = Inr r"
    by (rule preedge_InrD)
  from preedge_fits_span [OF fits] normalize_mu_fields(1) [OF nrm] show ?thesis
    by auto
qed

text \<open>
  C7 on the energies 0, 1, 2 with the edge supplied as 1.2: the returned edge is 1,
  between 0 and 2.
\<close>

theorem preedge_e0_within_span_witness:
  "\<exists>en v emin emax.
     locate_e0 [Fin 0, Fin 1, Fin 2] [Fin 0, Fin 0, Fin 0] (Some (Fin 1.2)) = Inr (en, v) \<and>
     py_min en = Inr emin \<and> py_max en = Inr emax \<and> fl_le emin (Fin 1) \<and> fl_le (Fin 1) emax"
  using preedge_e0_within_span [OF run_between] by simp



section \<open>Fit windows and resolved bounds\<close>

lemma length_slice: "p2 \<le> length xs \<Longrightarrow> length (slice xs p1 p2) = p2 - p1"
  by (simp add: slice_def)

lemma fit_window_indices:
  assumes "fit_window energy lo hi = Inr (p1, p2)"
  shows "\<exists>q. index_of energy lo = Inr p1 \<and> index_nearest energy hi = Inr q \<and>
           p2 = (if q < p1 + 2 then min (length energy) (p1 + 2) else q) \<and>
           p1 < length energy \<and> q < length energy \<and> p1 < p2 \<and> p2 \<le> length energy"
proof -
  from assms obtain q where
    io: "index_of energy lo = Inr p1" and
    near: "index_nearest energy hi = Inr q" and
    p2: "p2 = (if int q - int p1 < 2 then min (length energy) (p1 + 2) else q)"
    by (auto simp: fit_window_def bind_err_Inr)
  have p1: "p1 < length energy" by (rule index_of_less [OF io])
  have q: "q < length energy" by (rule index_nearest_less [OF near])
  have "(int q - int p1 < 2) = (q < p1 + 2)" by linarith
  with p2 have p2': "p2 = (if q < p1 + 2 then min (length energy) (p1 + 2) else q)"
    by simp
  have "p1 < p2 \<and> p2 \<le> length energy"
  proof (cases "q < p1 + 2")
    case True
    then have "p2 = min (length energy) (p1 + 2)" using p2' by simp
    then show ?thesis using p1 by linarith
  next
    case False
    then show ?thesis using p2' q by simp
  qed
  with io near p2' p1 q show ?thesis by blast
qed

text \<open>
  C6 as stated fails on the post-edge window that \<^verbatim>\<open>preedge\<close> resolves for the energies
  0, 1, 2 with the edge at 1 and the default parameters: the relative bounds come out as
  1 and 100, the lower index is the last index 2, the upper index is pushed to
  \<^verbatim>\<open>min(3, 4)\<close>, and the window \<^verbatim>\<open>energy[2:3]\<close> holds one sample.
\<close>

theorem fit_window_last_sample_counterexample:
  "resolve_ranges [Fin 0, Fin 1, Fin 2] (Fin 1) None (Fin (- 50)) (Fin 100) None
     = Inr (Fin (- 50), Fin (- 1), Fin 1, Fin 100) \<and>
   fit_window [Fin 0, Fin 1, Fin 2] (fl_add (Fin 1) (Fin 1)) (fl_add (Fin 100) (Fin 1))
     = Inr (2, 3) \<and>
   slice [Fin 0, Fin 1, Fin 2] 2 3 = [Fin 2]"
  by (simp add: run_defs)

text \<open>
  C6, amended: each resolved fit window runs from the index \<^verbatim>\<open>p1\<close> of \<^verbatim>\<open>index_of\<close> to
  the index of \<^verbatim>\<open>index_nearest\<close>, or to \<^verbatim>\<open>min(len(energy), p1 + 2)\<close> when that index is
  below \<^verbatim>\<open>p1 + 2\<close>; it lies within the array and holds at least one sample, and it holds
  at least two exactly when \<^verbatim>\<open>p1\<close> is not the last index.
\<close>

theorem fit_window_span:
  assumes "fit_window energy lo hi = Inr (p1, p2)"
  shows "\<exists>q. index_of energy lo = Inr p1 \<and> index_nearest energy hi = Inr q \<and>
           p2 = (if q < p1 + 2 then min (length energy) (p1 + 2) else q) \<and>
           p1 < length energy \<and> p2 \<le> length energy \<and>
           length (slice energy p1 p2) = p2 - p1 \<and>
           1 \<le> length (slice energy p1 p2) \<and>
           (2 \<le> length (slice energy p1 p2) \<longleftrightarrow> p1 + 2 \<le> length energy)"
proof -
  from fit_window_indices [OF assms] obtain q where
    io: "index_of energy lo = Inr p1" and
    near: "index_nearest energy hi = Inr q" and
    p2: "p2 = (if q < p1 + 2 then min (length energy) (p1 + 2) else q)" and
    p1: "p1 < length energy" and q: "q < length energy"
    by blast
  have le: "p2 \<le> length energy"
    using fit_window_indices [OF assms] by linarith
  have len: "length (slice energy p1 p2) = p2 - p1" by (rule length_slice [OF le])
  have one: "1 \<le> p2 - p1"
  proof (cases "q < p1 + 2")
    case True
    then have "p2 = min (length energy) (p1 + 2)" using p2 by simp
    then show ?thesis using p1 by linarith
  next
    case False
    then show ?thesis using p2 by simp
  qed
  have two: "2 \<le> p2 - p1 \<longleftrightarrow> p1 + 2 \<le> length energy"
  proof (cases "q < p1 + 2")
    case True
    then have "p2 = min (length energy) (p1 + 2)" using p2 by simp
    then show ?thesis by linarith
  next
    case False
    then show ?thesis using p2 q by simp
  qed
  show ?thesis
    by (rule exI [of _ q]) (simp only: io near p1 le len one two p2 [symmetric] simp_thms)
qed

text \<open>
  The amended C6 on the energies 0, 100, 200, 300 between 200 and 250: the nearest
  index to 250 is 2, the lower index, and the window is pushed to \<^verbatim>\<open>energy[2:4]\<close>.
\<close>

theorem fit_window_span_witness:
  "fit_window [Fin 0, Fin 100, Fin 200, Fin 300] (Fin 200) (Fin 250) = Inr (2, 4) \<and>
   (\<exists>q. index_of [Fin 0, Fin 100, Fin 200, Fin 300] (Fin 200) = Inr 2 \<and>
        index_nearest [Fin 0, Fin 100, Fin 200, Fin 300] (Fin 250) = Inr q \<and>
        (4::nat) = (if q < 2 + 2 then min (length [Fin 0, Fin 100, Fin 200, Fin 300]) (2 + 2) else q) \<and>
        length (slice [Fin 0, Fin 100, Fin 200, Fin 300] 2 4) = 4 - 2)"
proof -
  have run: "fit_window [Fin 0, Fin 100, Fin 200, Fin 300] (Fin 200) (Fin 250) = Inr (2, 4)"
    by (simp add: run_defs)
  from fit_window_span [OF run] obtain q where
    "index_of [Fin 0, Fin 100, Fin 200, Fin 300] (Fin 200) = Inr 2"
    "index_nearest [Fin 0, Fin 100, Fin 200, Fin 300] (Fin 250) = Inr q"
    "(4::nat) = (if q < 2 + 2 then min (length [Fin 0, Fin 100, Fin 200, Fin 300]) (2 + 2) else q)"
    "length (slice [Fin 0, Fin 100, Fin 200, Fin 300] 2 4) = 4 - 2"
    by blast
  with run show ?thesis by blast
qed

lemma fl_sub_not_NInf: "fl_le a b \<Longrightarrow> fl_sub b a \<noteq> NInf"
  by (cases a; cases b) (simp_all add: fl_sub_def)

lemma clamp_negative_norm2:
  "fl_less n2 (Fin 0) \<Longrightarrow> t \<noteq> NInf \<Longrightarrow> py_min1 (fl_sub t n2) [t] = t"
  by (cases t; cases n2) (simp_all add: py_min1_def fl_sub_def)

lemma resolve_ranges_norm:
  assumes "resolve_ranges en e pre1 pre2 norm1 nrm2 = Inr (p1r, p2r, n1r, n2r)"
    and "py_max en = Inr emax"
  shows "(n1r, n2r) =
           (let norm2a = (case nrm2 of None \<Rightarrow> fl_sub emax e | Some v \<Rightarrow> v);
                norm2b = (if fl_less norm2a (Fin 0) then fl_sub (fl_sub emax e) norm2a
                          else norm2a);
                norm2c = py_min1 norm2b [fl_sub emax e]
            in if fl_less norm2c norm1 then (norm2c, norm1) else (norm1, norm2c))"
  using assms by (auto simp: resolve_ranges_def bind_err_Inr Let_def split: if_splits)

text \<open>
  C3 as stated fails on the energies 0, 100, 200, 300 with the edge at 100 and
  \<^verbatim>\<open>norm2 = -50\<close>: \<^verbatim>\<open>max(energy) - e0 - norm2\<close> is 250, and the record holds 200.
\<close>

theorem preedge_negative_norm2_counterexample:
  "preedge zero_fit [Fin 0, Fin 100, Fin 200, Fin 300] [Fin 0, Fin 0, Fin 0, Fin 0]
     (Some (Fin 100)) None 3 0 None (Fin (- 50)) (Fin 100) (Some (Fin (- 50)))
   = Inr \<lparr>o_e0 = Fin 100, o_edge_step = Fin 0, o_norm = [NaN, NaN, NaN, NaN],
          o_pre_edge = [Fin 0, Fin 0, Fin 0, Fin 0],
          o_post_edge = Array [Fin 0, Fin 0, Fin 0, Fin 0],
          o_norm_coefs = [Fin 0, Fin 0, Fin 0, Fin 0], o_nvict = 0, o_nnorm = 3,
          o_norm1 = Fin 100, o_norm2 = Fin 200, o_pre1 = Fin (- 100), o_pre2 = Fin (- 50),
          o_precoefs = [Fin 0, Fin 0]\<rparr> \<and>
   py_max [Fin 0, Fin 100, Fin 200, Fin 300] = Inr (Fin 300) \<and>
   fl_sub (fl_sub (Fin 300) (Fin 100)) (Fin (- 50)) = Fin 250"
  by (simp add: run_defs)

text \<open>
  C3, amended: when \<^verbatim>\<open>norm2\<close> is supplied negative, \<^verbatim>\<open>max(energy) - e0 - norm2\<close> is
  computed and then clamped by \<^verbatim>\<open>min(norm2, max(energy) - e0)\<close>, so the resolved upper
  post-edge bound is \<^verbatim>\<open>max(energy) - e0\<close>, the same as for an absent \<^verbatim>\<open>norm2\<close>; if
  \<^verbatim>\<open>norm1\<close> is larger than that, the two are swapped and the record holds \<^verbatim>\<open>norm1\<close> as
  its \<^verbatim>\<open>norm2\<close>.
\<close>

theorem preedge_negative_norm2:
  assumes "preedge pf energy mu e0 step nnorm nvict pre1 pre2 norm1 (Some n2) = Inr r"
    and "fl_less n2 (Fin 0)"
  shows "\<exists>en v emax. locate_e0 energy mu e0 = Inr (en, v) \<and> py_max en = Inr emax \<and>
           o_norm2 r = (if fl_less (fl_sub emax (o_e0 r)) norm1 then norm1
                        else fl_sub emax (o_e0 r)) \<and>
           o_norm1 r = (if fl_less (fl_sub emax (o_e0 r)) norm1 then fl_sub emax (o_e0 r)
                        else norm1)"
proof -
  from assms(1) obtain f ie0 where
    fits: "preedge_fits pf energy mu e0 nnorm nvict pre1 pre2 norm1 (Some n2) = Inr (f, ie0)" and
    nrm: "normalize_mu mu step (f, ie0) = Inr r"
    by (rule preedge_InrD)
  from preedge_fits_span [OF fits] obtain en v emax where
    loc: "locate_e0 energy mu e0 = Inr (en, v)" and
    e0f: "o_e0 f = en ! ie0" and
    emax: "py_max en = Inr emax" and
    le: "fl_le (o_e0 f) emax"
    by auto
  from fits loc obtain p1r p2r n1r n2r where
    rg: "resolve_ranges en (en ! ie0) pre1 pre2 norm1 (Some n2) = Inr (p1r, p2r, n1r, n2r)" and
    f1: "o_norm1 f = n1r" and f2: "o_norm2 f = n2r"
    by (elim preedge_fits_InrD) auto
  define t where "t = fl_sub emax (en ! ie0)"
  have t: "t \<noteq> NInf" using le e0f by (simp add: t_def fl_sub_not_NInf)
  have clamp: "py_min1 (fl_sub t n2) [t] = t"
    by (rule clamp_negative_norm2 [OF assms(2) t])
  from resolve_ranges_norm [OF rg emax]
  have "(n1r, n2r) = (if fl_less t norm1 then (t, norm1) else (norm1, t))"
    using assms(2) clamp by (simp add: t_def)
  then have "n2r = (if fl_less t norm1 then norm1 else t)"
    and "n1r = (if fl_less t norm1 then t else norm1)"
    by (simp_all split: if_splits)
  with loc emax f1 f2 e0f normalize_mu_fields(1-3) [OF nrm] show ?thesis
    by (auto simp: t_def)
qed

lemma run_norm2_below_norm1:
  "preedge zero_fit [Fin 0, Fin 1, Fin 2] [Fin 0, Fin 0, Fin 0] (Some (Fin 1)) None 3 0
     None (Fin (- 50)) (Fin 100) (Some (Fin (- 1)))
   = Inr \<lparr>o_e0 = Fin 1, o_edge_step = Fin 0, o_norm = [NaN, NaN, NaN],
          o_pre_edge = [Fin 0, Fin 0, Fin 0], o_post_edge = Array [Fin 0, Fin 0, Fin 0],
          o_norm_coefs = [Fin 0, Fin 0, Fin 0, Fin 0], o_nvict = 0, o_nnorm = 3,
          o_norm1 = Fin 1, o_norm2 = Fin 100, o_pre1 = Fin (- 50), o_pre2 = Fin (- 1),
          o_precoefs = [Fin 0, Fin 0]\<rparr>"
  by (simp add: run_defs)

text \<open>
  The amended C3 on the energies 0, 1, 2 with the edge at 1, \<^verbatim>\<open>norm1 = 100\<close> and
  \<^verbatim>\<open>norm2 = -1\<close>: \<^verbatim>\<open>max(energy) - e0\<close> is 1, below \<^verbatim>\<open>norm1\<close>, and the record holds
  \<^verbatim>\<open>norm1 = 1\<close> and \<^verbatim>\<open>norm2 = 100\<close>.
\<close>

theorem preedge_negative_norm2_witness:
  "fl_less (Fin (- 1)) (Fin 0) \<and>
   (\<exists>en v emax. locate_e0 [Fin 0, Fin 1, Fin 2] [Fin 0, Fin 0, Fin 0] (Some (Fin 1)) = Inr (en, v) \<and>
      py_max en = Inr emax \<and>
      Fin 100 = (if fl_less (fl_sub emax (Fin 1)) (Fin 100) then Fin 100 else fl_sub emax (Fin 1)) \<and>
      Fin 1 = (if fl_less (fl_sub emax (Fin 1)) (Fin 100) then fl_sub emax (Fin 1) else Fin 100))"
proof -
  have neg: "fl_less (Fin (- 1)) (Fin 0)" by simp
  from preedge_negative_norm2 [OF run_norm2_below_norm1 neg] neg show ?thesis
    by (simp cong: if_cong)
qed

section \<open>The edge step\<close>







section \<open>Locating the edge from the derivative\<close>

lemma py_max1_nan: "isnan m \<Longrightarrow> py_max1 m xs = m"
  by (induction xs) (auto simp: py_max1_def isnan_iff)

lemma threshold_positive:
  "fl_le d m \<Longrightarrow> fl_less (fl_mul m (Fin (5 / 100))) d \<Longrightarrow> fl_less (Fin 0) d"
  by (cases d; cases m) (auto simp: signed_inf_def split: if_splits)

lemma high_deriv_pts_positive:
  assumes "high_deriv_pts dmu = Inr pts" and "j \<in> set pts"
  shows "j < length dmu \<and> fl_less (Fin 0) (dmu ! j)"
proof -
  from assms(1) obtain m where m: "py_max dmu = Inr m"
    and pts: "pts = np_where (\<lambda>d. fl_less (fl_mul m (Fin (5 / 100))) d) dmu"
    by (auto simp: high_deriv_pts_def bind_err_Inr)
  from assms(2) pts have j: "j < length dmu" and thr: "fl_less (fl_mul m (Fin (5 / 100))) (dmu ! j)"
    by (simp_all add: set_np_where)
  from m obtain x xs where dmu: "dmu = x # xs" and mx: "m = py_max1 x xs"
    by (cases dmu) auto
  have nnj: "\<not> isnan (dmu ! j)" using thr fl_less_not_nan by blast
  have nnx: "\<not> isnan x"
  proof
    assume "isnan x"
    then have "m = NaN" using mx by (simp add: py_max1_nan isnan_iff)
    with thr show False by simp
  qed
  have mem: "dmu ! j = x \<or> dmu ! j \<in> set xs"
    using j dmu by (cases j) auto
  have "fl_le (dmu ! j) m"
    using py_max1_bound [OF nnx, of xs] mem nnj mx by auto
  with thr j show ?thesis by (simp add: threshold_positive)
qed

lemma deriv_loop:
  "(\<forall>j\<in>set qs. j + 1 \<in> set pts \<and> 0 < j \<and> j - 1 \<in> set pts \<longrightarrow>
       \<not> fl_less (snd (foldl (deriv_step dmu pts) s qs)) (dmu ! j)) \<and>
   (foldl (deriv_step dmu pts) s qs = s \<or>
    (fst (foldl (deriv_step dmu pts) s qs) \<in> set qs \<and>
     fst (foldl (deriv_step dmu pts) s qs) + 1 \<in> set pts \<and>
     0 < fst (foldl (deriv_step dmu pts) s qs) \<and>
     fst (foldl (deriv_step dmu pts) s qs) - 1 \<in> set pts \<and>
     snd (foldl (deriv_step dmu pts) s qs) = dmu ! fst (foldl (deriv_step dmu pts) s qs) \<and>
     fl_less (snd s) (snd (foldl (deriv_step dmu pts) s qs))))"
proof (induction qs rule: rev_induct)
  case Nil
  then show ?case by simp
next
  case (snoc q qs)
  define t where "t = foldl (deriv_step dmu pts) s qs"
  define u where "u = deriv_step dmu pts t q"
  have fold: "foldl (deriv_step dmu pts) s (qs @ [q]) = u"
    by (simp add: t_def u_def)
  from snoc.IH have ih1: "\<forall>j\<in>set qs. j + 1 \<in> set pts \<and> 0 < j \<and> j - 1 \<in> set pts \<longrightarrow>
       \<not> fl_less (snd t) (dmu ! j)"
    and ih2: "t = s \<or> (fst t \<in> set qs \<and> fst t + 1 \<in> set pts \<and> 0 < fst t \<and>
                        fst t - 1 \<in> set pts \<and> snd t = dmu ! fst t \<and> fl_less (snd s) (snd t))"
    by (simp_all add: t_def)
  show ?case
  proof (cases "fl_less (snd t) (dmu ! q) \<and> q + 1 \<in> set pts \<and> 0 < q \<and> q - 1 \<in> set pts")
    case True
    then have u: "u = (q, dmu ! q)" by (simp add: u_def deriv_step_def)
    have a: "\<not> fl_less (snd u) (dmu ! j)"
      if "j \<in> set (qs @ [q])" "j + 1 \<in> set pts \<and> 0 < j \<and> j - 1 \<in> set pts" for j
    proof (cases "j = q")
      case True
      then show ?thesis using u by (cases "dmu ! q") simp_all
    next
      case False
      with that ih1 have "\<not> fl_less (snd t) (dmu ! j)" by auto
      moreover have "fl_less (snd t) (snd u)" using True u by simp
      ultimately show ?thesis using fl_less_trans by blast
    qed
    have b: "fl_less (snd s) (snd u)"
      using ih2 True u fl_less_trans by auto
    show ?thesis
      unfolding fold using a b u True by auto
  next
    case False
    then have u: "u = t" by (auto simp: u_def deriv_step_def)
    show ?thesis
      unfolding fold u using ih1 ih2 False by auto
  qed
qed


lemma idmu_max_of_spec:
  assumes "high_deriv_pts dmu = Inr pts"
  shows "(idmu_max_of dmu pts = 0 \<and> (\<forall>i. \<not> supported pts i)) \<or>
         (supported pts (idmu_max_of dmu pts) \<and>
          (\<forall>j. supported pts j \<longrightarrow> fl_le (dmu ! j) (dmu ! idmu_max_of dmu pts)))"
proof -
  define u where "u = foldl (deriv_step dmu pts) (0, Fin 0) pts"
  have k: "idmu_max_of dmu pts = fst u" by (simp add: idmu_max_of_def u_def)
  from deriv_loop [of pts pts dmu "(0, Fin 0)"]
  have all: "\<forall>j. supported pts j \<longrightarrow> \<not> fl_less (snd u) (dmu ! j)"
    and alt: "u = (0, Fin 0) \<or> (fst u \<in> set pts \<and> fst u + 1 \<in> set pts \<and> 0 < fst u \<and>
                 fst u - 1 \<in> set pts \<and> snd u = dmu ! fst u)"
    by (auto simp: u_def supported_def)
  from alt show ?thesis
  proof
    assume init: "u = (0, Fin 0)"
    have "\<not> supported pts i" for i
    proof
      assume sup: "supported pts i"
      then have "fl_less (Fin 0) (dmu ! i)"
        using high_deriv_pts_positive [OF assms, of i] by (simp add: supported_def)
      with all sup init show False by simp
    qed
    with init k show ?thesis by simp
  next
    assume upd: "fst u \<in> set pts \<and> fst u + 1 \<in> set pts \<and> 0 < fst u \<and>
                 fst u - 1 \<in> set pts \<and> snd u = dmu ! fst u"
    then have sup: "supported pts (fst u)" by (simp add: supported_def)
    have nn: "\<not> isnan (dmu ! fst u)"
      using high_deriv_pts_positive [OF assms, of "fst u"] upd fl_less_not_nan by blast
    have "fl_le (dmu ! j) (dmu ! fst u)" if "supported pts j" for j
    proof -
      have "\<not> isnan (dmu ! j)"
        using high_deriv_pts_positive [OF assms, of j] that fl_less_not_nan
        by (auto simp: supported_def)
      moreover have "\<not> fl_less (dmu ! fst u) (dmu ! j)" using all that upd by simp
      ultimately show ?thesis using nn by (simp add: fl_not_less_le)
    qed
    with sup k show ?thesis by simp
  qed
qed

lemma length_dup_step: "length (dup_step tiny fr arr i) = length arr"
  by (simp add: dup_step_def Let_def)

lemma length_remove_dups: "length (remove_dups arr tiny fr) = length arr"
proof -
  have "length (foldl (dup_step tiny fr) a ds) = length a" for a ds
    by (induction ds arbitrary: a) (simp_all add: length_dup_step)
  then show ?thesis by (simp add: remove_dups_def)
qed

lemma length_grad_interior: "length (grad_interior f) = length f - 2"
  by (induction f rule: grad_interior.induct) simp_all

lemma np_gradient_Inr:
  "2 \<le> length f \<Longrightarrow> \<exists>g. np_gradient f = Inr g \<and> length g = length f"
  by (simp add: np_gradient_def length_grad_interior)

lemma bcast2_same_length:
  "length xs = length ys \<Longrightarrow> bcast2 f xs ys = Inr (map2 f xs ys)"
  by (simp add: bcast2_def)

lemma high_deriv_pts_Inr: "dmu \<noteq> [] \<Longrightarrow> \<exists>pts. high_deriv_pts dmu = Inr pts"
  by (cases dmu) (simp_all add: high_deriv_pts_def bind_err_def)

text \<open>With two samples or more and as many absorption values, the derivation returns.\<close>

lemma derive_e0_Inr:
  assumes "length mu = length energy" and "2 \<le> length energy"
  shows "\<exists>gmu gen pts.
           np_gradient mu = Inr gmu \<and>
           np_gradient (remove_dups energy tiny_default frac_default) = Inr gen \<and>
           length gmu = length energy \<and> length gen = length energy \<and>
           high_deriv_pts (map2 fl_div gmu gen) = Inr pts \<and>
           idmu_max_of (map2 fl_div gmu gen) pts < length energy \<and>
           derive_e0 energy mu
             = Inr (remove_dups energy tiny_default frac_default,
                    remove_dups energy tiny_default frac_default
                      ! idmu_max_of (map2 fl_div gmu gen) pts)"
proof -
  define en2 where "en2 = remove_dups energy tiny_default frac_default"
  have len2: "length en2 = length energy" by (simp add: en2_def length_remove_dups)
  from np_gradient_Inr [of mu] assms obtain gmu where
    gmu: "np_gradient mu = Inr gmu" "length gmu = length energy" by auto
  from np_gradient_Inr [of en2] assms len2 obtain gen where
    gen: "np_gradient en2 = Inr gen" "length gen = length energy" by auto
  define dmu where "dmu = map2 fl_div gmu gen"
  have ldmu: "length dmu = length energy" by (simp add: dmu_def gmu gen)
  have bc: "bcast2 fl_div gmu gen = Inr dmu"
    by (simp add: dmu_def bcast2_same_length gmu gen)
  from ldmu assms(2) have "dmu \<noteq> []" by auto
  from high_deriv_pts_Inr [OF this] obtain pts where pts: "high_deriv_pts dmu = Inr pts" ..
  have k: "idmu_max_of dmu pts < length energy"
    using idmu_max_of_spec [OF pts] high_deriv_pts_positive [OF pts] ldmu assms(2)
    by (auto simp: supported_def)
  have "derive_e0 energy mu = Inr (en2, en2 ! idmu_max_of dmu pts)"
    using gmu gen bc pts k len2
    by (simp add: derive_e0_def Let_def en2_def [symmetric] bind_err_def getitem_def)
  with gmu gen pts k show ?thesis
    by (auto simp: en2_def dmu_def)
qed

lemma locate_e0_absent_or_outside:
  assumes "e0 = None \<or>
           (\<exists>w. e0 = Some w \<and>
              (fl_less w (hd (remove_dups energy tiny_default frac_default)) \<or>
               fl_less (last (remove_dups energy tiny_default frac_default)) w))"
    and "energy \<noteq> []"
  shows "locate_e0 energy mu e0 = derive_e0 (remove_dups energy tiny_default frac_default) mu"
proof -
  have "remove_dups energy tiny_default frac_default \<noteq> []"
    using assms(2) length_remove_dups [of energy tiny_default frac_default] by auto
  then show ?thesis using assms(1)
    by (auto simp: locate_e0_def Let_def bind_err_def getitem_def getlast_def hd_conv_nth)
qed

text \<open>
  \<^verbatim>\<open>argmin\<close> returns the index of a NaN, or there is no NaN and the entry at the index
  is a smallest one. The scan is at position \<open>i\<close>, after the prefix \<open>ps\<close>.
\<close>

lemma argmin_from_spec:
  assumes "length ps = i" and "mi < i" and "mp = ps ! mi"
    and "isnan mp \<or> (\<forall>j<i. \<not> isnan (ps ! j) \<and> fl_le mp (ps ! j))"
  shows "isnan ((ps @ xs) ! argmin_from mp mi i xs) \<or>
         (\<forall>j<length (ps @ xs). \<not> isnan ((ps @ xs) ! j) \<and>
             fl_le ((ps @ xs) ! argmin_from mp mi i xs) ((ps @ xs) ! j))"
  using assms
proof (induction xs arbitrary: ps i mi mp)
  case Nil
  then show ?case by auto
next
  case (Cons x xs)
  show ?case
  proof (cases "isnan mp")
    case True
    then show ?thesis using Cons.prems by (simp add: nth_append)
  next
    case nn: False
    with Cons.prems have inv: "\<forall>j<i. \<not> isnan (ps ! j) \<and> fl_le mp (ps ! j)" by simp
    show ?thesis
    proof (cases "fl_le mp x")
      case True
      have "isnan (((ps @ [x]) @ xs) ! argmin_from mp mi (Suc i) xs) \<or>
            (\<forall>j<length ((ps @ [x]) @ xs). \<not> isnan (((ps @ [x]) @ xs) ! j) \<and>
               fl_le (((ps @ [x]) @ xs) ! argmin_from mp mi (Suc i) xs) (((ps @ [x]) @ xs) ! j))"
      proof (rule Cons.IH)
        show "length (ps @ [x]) = Suc i" using Cons.prems by simp
        show "mi < Suc i" using Cons.prems by simp
        show "mp = (ps @ [x]) ! mi" using Cons.prems by (simp add: nth_append)
        show "isnan mp \<or> (\<forall>j<Suc i. \<not> isnan ((ps @ [x]) ! j) \<and> fl_le mp ((ps @ [x]) ! j))"
          using inv True Cons.prems(1) fl_le_not_nan [OF True]
          by (auto simp: nth_append less_Suc_eq)
      qed
      then show ?thesis using nn True by simp
    next
      case False
      have "isnan (((ps @ [x]) @ xs) ! argmin_from x i (Suc i) xs) \<or>
            (\<forall>j<length ((ps @ [x]) @ xs). \<not> isnan (((ps @ [x]) @ xs) ! j) \<and>
               fl_le (((ps @ [x]) @ xs) ! argmin_from x i (Suc i) xs) (((ps @ [x]) @ xs) ! j))"
      proof (rule Cons.IH)
        show "length (ps @ [x]) = Suc i" using Cons.prems by simp
        show "i < Suc i" by simp
        show "x = (ps @ [x]) ! i" using Cons.prems by (simp add: nth_append)
        show "isnan x \<or> (\<forall>j<Suc i. \<not> isnan ((ps @ [x]) ! j) \<and> fl_le x ((ps @ [x]) ! j))"
        proof (cases "isnan x")
          case True
          then show ?thesis by simp
        next
          case nx: False
          then have lt: "fl_le x mp"
            using False nn by (cases x; cases mp) simp_all
          have "fl_le x (ps ! j)" if "j < i" for j
            using inv that lt fl_le_trans by blast
          then show ?thesis
            using inv nx Cons.prems(1) by (auto simp: nth_append less_Suc_eq fl_le_refl)
        qed
      qed
      then show ?thesis using nn False by simp
    qed
  qed
qed

lemma np_argmin_spec:
  assumes "np_argmin ds = Inr i"
  shows "i < length ds \<and>
         (isnan (ds ! i) \<or> (\<forall>j<length ds. \<not> isnan (ds ! j) \<and> fl_le (ds ! i) (ds ! j)))"
proof (cases ds)
  case Nil
  with assms show ?thesis by simp
next
  case (Cons d ds')
  with assms have i: "i = argmin_from d 0 1 ds'" by simp
  have "argmin_from d 0 1 ds' < 1 + length ds'"
    by (rule argmin_from_less) simp
  moreover have "isnan (([d] @ ds') ! argmin_from d 0 1 ds') \<or>
         (\<forall>j<length ([d] @ ds'). \<not> isnan (([d] @ ds') ! j) \<and>
             fl_le (([d] @ ds') ! argmin_from d 0 1 ds') (([d] @ ds') ! j))"
    by (rule argmin_from_spec) (auto simp: fl_le_refl)
  ultimately show ?thesis using i Cons by simp
qed

lemma isnan_abs_sub: "isnan (fl_abs (fl_sub a b)) \<Longrightarrow> isnan a \<or> isnan b \<or> a = b"
  by (cases a; cases b) (simp_all add: fl_sub_def)

lemma abs_sub_self: "\<not> isnan (fl_abs (fl_sub a a)) \<Longrightarrow> fl_abs (fl_sub a a) = Fin 0"
  by (cases a) (simp_all add: fl_sub_def)

lemma abs_sub_le_zero: "fl_le (fl_abs (fl_sub a b)) (Fin 0) \<Longrightarrow> a = b"
  by (cases a; cases b) (simp_all add: fl_sub_def)

text \<open>
  The energy nearest to an entry of the array is that entry's value, unless a NaN is
  involved.
\<close>

lemma index_nearest_self:
  assumes "index_nearest en (en ! k) = Inr i" and "k < length en" and "\<not> isnan (en ! i)"
  shows "en ! i = en ! k \<or> (isnan (en ! k) \<and> i = 0)"
proof -
  define ds where "ds = map (\<lambda>x. fl_abs (fl_sub x (en ! k))) en"
  have arg: "np_argmin ds = Inr i" using assms(1) by (simp add: index_nearest_def ds_def)
  from np_argmin_spec [OF arg] have ids: "i < length ds"
    and alt: "isnan (ds ! i) \<or> (\<forall>j<length ds. \<not> isnan (ds ! j) \<and> fl_le (ds ! i) (ds ! j))"
    by blast+
  from ids have i: "i < length en" by (simp add: ds_def)
  have dsi: "ds ! i = fl_abs (fl_sub (en ! i) (en ! k))" using i by (simp add: ds_def)
  have dsk: "ds ! k = fl_abs (fl_sub (en ! k) (en ! k))" using assms(2) by (simp add: ds_def)
  from alt show ?thesis
  proof
    assume "isnan (ds ! i)"
    then have "isnan (en ! k) \<or> en ! i = en ! k"
      using isnan_abs_sub [of "en ! i" "en ! k"] assms(3) dsi by auto
    then show ?thesis
    proof
      assume nk: "isnan (en ! k)"
      obtain x xs where en: "en = x # xs" using i by (cases en) auto
      have "isnan (fl_abs (fl_sub x (en ! k)))" using nk by (simp add: isnan_iff)
      then have "i = 0"
        using assms(1) en by (simp add: index_nearest_def argmin_from_nan)
      with nk show ?thesis by simp
    qed simp
  next
    assume min: "\<forall>j<length ds. \<not> isnan (ds ! j) \<and> fl_le (ds ! i) (ds ! j)"
    have lk: "k < length ds" using assms(2) by (simp add: ds_def)
    with min have "\<not> isnan (ds ! k)" and le: "fl_le (ds ! i) (ds ! k)" by auto
    then have "ds ! k = Fin 0" using dsk abs_sub_self by simp
    with le dsi have "en ! i = en ! k" by (simp add: abs_sub_le_zero)
    then show ?thesis ..
  qed
qed

lemma grad_interior_nth:
  "j + 2 < length f \<Longrightarrow> grad_interior f ! j = fl_div (fl_sub (f ! (j + 2)) (f ! j)) (Fin 2)"
proof (induction f arbitrary: j rule: grad_interior.induct)
  case (1 a b c xs)
  show ?case
  proof (cases j)
    case 0
    then show ?thesis by simp
  next
    case (Suc j')
    with "1.prems" have "j' + 2 < length (b # c # xs)" by simp
    from "1.IH" [OF this] Suc show ?thesis by simp
  qed
qed simp_all

lemma fl_div_NaN_right [simp]: "fl_div a NaN = NaN"
  by (cases a) simp_all

text \<open>
  The gradient of the energies at the index before a NaN is a NaN, so the derivative
  there is no candidate.
\<close>

lemma np_gradient_before_nan:
  assumes "np_gradient f = Inr g" and "0 < k" and "k < length f" and "isnan (f ! k)"
  shows "isnan (g ! (k - 1))"
proof -
  from assms(1) have len: "2 \<le> length f"
    and g: "g = [fl_sub (f ! 1) (f ! 0)] @ grad_interior f @ [fl_sub (last f) (last (butlast f))]"
    by (auto simp: np_gradient_def split: if_splits)
  show ?thesis
  proof (cases "k = 1")
    case True
    then show ?thesis using g assms(4) by (simp add: isnan_iff)
  next
    case False
    define j where "j = k - 2"
    with False assms(2) have j: "k = j + 2" by simp
    then have lt: "j + 2 < length f" using assms(3) by simp
    have "j < length f - 2" using lt by simp
    then have "g ! (k - 1) = grad_interior f ! j"
      using g j by (simp add: nth_append length_grad_interior)
    also have "\<dots> = fl_div (fl_sub (f ! (j + 2)) (f ! j)) (Fin 2)"
      by (rule grad_interior_nth [OF lt])
    finally show ?thesis using assms(4) j by (simp add: isnan_iff)
  qed
qed

lemma high_deriv_pts_set:
  assumes "high_deriv_pts dmu = Inr pts"
  shows "\<exists>m. py_max dmu = Inr m \<and>
           set pts = {i. i < length dmu \<and> fl_less (fl_mul m (Fin (5 / 100))) (dmu ! i)}"
  using assms by (auto simp: high_deriv_pts_def bind_err_Inr set_np_where)

lemma run_outside:
  "preedge zero_fit [Fin 0, Fin 1, Fin 2] [Fin 0, Fin 0, Fin 0] (Some (Fin 7)) None 3 0
     None (Fin (- 50)) (Fin 100) None
   = Inr \<lparr>o_e0 = Fin 0, o_edge_step = Fin 0, o_norm = [NaN, NaN, NaN],
          o_pre_edge = [Fin 0, Fin 0, Fin 0], o_post_edge = Array [Fin 0, Fin 0, Fin 0],
          o_norm_coefs = [Fin 0, Fin 0, Fin 0, Fin 0], o_nvict = 0, o_nnorm = 3,
          o_norm1 = Fin 2, o_norm2 = Fin 100, o_pre1 = Fin (- 50), o_pre2 = Fin 0,
          o_precoefs = [Fin 0, Fin 0]\<rparr>"
  by (simp add: run_defs)

text \<open>
  C8 as stated fails on a spectrum of one sample: with the edge supplied in range
  \<^verbatim>\<open>preedge\<close> returns a record, with no edge or with an edge out of range
  \<^verbatim>\<open>np.gradient\<close> raises ValueError and \<^verbatim>\<open>preedge\<close> fails.
\<close>

theorem preedge_rederive_single_sample_counterexample:
  "preedge zero_fit [Fin 5] [Fin 0] None None 3 0 None (Fin (- 50)) (Fin 100) None
     = Inl ValueError \<and>
   preedge zero_fit [Fin 5] [Fin 0] (Some (Fin 7)) None 3 0 None (Fin (- 50)) (Fin 100) None
     = Inl ValueError \<and>
   preedge zero_fit [Fin 5] [Fin 0] (Some (Fin 5)) None 3 0 None (Fin (- 50)) (Fin 100) None
     = Inr \<lparr>o_e0 = Fin 5, o_edge_step = Fin 0, o_norm = [NaN],
            o_pre_edge = [Fin 0], o_post_edge = Array [Fin 0],
            o_norm_coefs = [Fin 0, Fin 0, Fin 0, Fin 0], o_nvict = 0, o_nnorm = 3,
            o_norm1 = Fin 0, o_norm2 = Fin 100, o_pre1 = Fin (- 50), o_pre2 = Fin 0,
            o_precoefs = [Fin 0, Fin 0]\<rparr>"
  by (simp add: run_defs)

text \<open>
  C8, amended: whenever the caller supplies no edge energy, or one outside
  \<^verbatim>\<open>[energy[0], energy[-1]]\<close>, \<^verbatim>\<open>preedge\<close> does not reject it but does what it does
  with no edge supplied. With at least two samples and as many absorption values, the
  derivation returns: \<^verbatim>\<open>dmu\<close> is the ratio of the gradients of \<^verbatim>\<open>mu\<close> and of the energies
  (de-duplicated a second time), the candidates \<^verbatim>\<open>pts\<close> are the indices whose derivative
  exceeds 5% of \<^verbatim>\<open>max(dmu)\<close>, and the edge is the energy at the index \<open>k\<close> that is a
  candidate between two candidates with the largest derivative among these, or at index 0
  if there is no such index. When \<^verbatim>\<open>preedge\<close> returns, the \<^verbatim>\<open>e0\<close> of the record is this
  energy.
\<close>

theorem preedge_rederives_e0:
  assumes "length mu = length energy" and "2 \<le> length energy"
    and "e0 = None \<or>
         (\<exists>w. e0 = Some w \<and>
            (fl_less w (hd (remove_dups energy tiny_default frac_default)) \<or>
             fl_less (last (remove_dups energy tiny_default frac_default)) w))"
  shows "\<exists>en gmu gen pts k m.
           en = remove_dups (remove_dups energy tiny_default frac_default) tiny_default frac_default \<and>
           np_gradient mu = Inr gmu \<and> np_gradient en = Inr gen \<and>
           py_max (map2 fl_div gmu gen) = Inr m \<and>
           high_deriv_pts (map2 fl_div gmu gen) = Inr pts \<and>
           set pts = {i. i < length en \<and> fl_less (fl_mul m (Fin (5 / 100))) (map2 fl_div gmu gen ! i)} \<and>
           k = idmu_max_of (map2 fl_div gmu gen) pts \<and> k < length en \<and>
           ((k = 0 \<and> (\<forall>i. \<not> supported pts i)) \<or>
            (supported pts k \<and>
             (\<forall>j. supported pts j \<longrightarrow> fl_le (map2 fl_div gmu gen ! j) (map2 fl_div gmu gen ! k)))) \<and>
           locate_e0 energy mu e0 = Inr (en, en ! k) \<and>
           preedge pf energy mu e0 step nnorm nvict pre1 pre2 norm1 norm2
             = preedge pf energy mu None step nnorm nvict pre1 pre2 norm1 norm2 \<and>
           (\<forall>r. preedge pf energy mu e0 step nnorm nvict pre1 pre2 norm1 norm2 = Inr r
                \<longrightarrow> o_e0 r = en ! k)"
proof -
  define en1 where "en1 = remove_dups energy tiny_default frac_default"
  define en where "en = remove_dups en1 tiny_default frac_default"
  have len1: "length en1 = length energy" by (simp add: en1_def length_remove_dups)
  have len: "length en = length energy" by (simp add: en_def len1 length_remove_dups)
  have ne: "energy \<noteq> []" using assms(2) by auto
  from derive_e0_Inr [of mu en1] assms(1,2) len1 obtain gmu gen pts where
    gmu: "np_gradient mu = Inr gmu" and gen: "np_gradient en = Inr gen" and
    lg: "length gmu = length energy" "length gen = length energy" and
    pts: "high_deriv_pts (map2 fl_div gmu gen) = Inr pts" and
    kl: "idmu_max_of (map2 fl_div gmu gen) pts < length energy" and
    der: "derive_e0 en1 mu = Inr (en, en ! idmu_max_of (map2 fl_div gmu gen) pts)"
    by (auto simp: en_def)
  define dmu where "dmu = map2 fl_div gmu gen"
  define k where "k = idmu_max_of dmu pts"
  have ldmu: "length dmu = length en" by (simp add: dmu_def lg len)
  from high_deriv_pts_set [OF pts] obtain m where
    m: "py_max dmu = Inr m" and
    set: "set pts = {i. i < length en \<and> fl_less (fl_mul m (Fin (5 / 100))) (dmu ! i)}"
    unfolding dmu_def [symmetric] ldmu by blast
  have spec: "(k = 0 \<and> (\<forall>i. \<not> supported pts i)) \<or>
              (supported pts k \<and> (\<forall>j. supported pts j \<longrightarrow> fl_le (dmu ! j) (dmu ! k)))"
    using idmu_max_of_spec [OF pts] by (simp add: k_def dmu_def)
  have loc_none: "locate_e0 energy mu None = Inr (en, en ! k)"
    using der by (simp add: locate_e0_def en1_def k_def dmu_def)
  have loc: "locate_e0 energy mu e0 = Inr (en, en ! k)"
    using locate_e0_absent_or_outside [OF assms(3) ne, of mu] der
    by (simp add: en1_def k_def dmu_def)
  have same: "preedge pf energy mu e0 step nnorm nvict pre1 pre2 norm1 norm2
                = preedge pf energy mu None step nnorm nvict pre1 pre2 norm1 norm2"
    using loc loc_none by (simp add: preedge_def preedge_fits_def)
  have edge: "o_e0 r = en ! k"
    if run: "preedge pf energy mu e0 step nnorm nvict pre1 pre2 norm1 norm2 = Inr r" for r
  proof -
    from run obtain f ie0 where
      fits: "preedge_fits pf energy mu e0 nnorm nvict pre1 pre2 norm1 norm2 = Inr (f, ie0)" and
      nrm: "normalize_mu mu step (f, ie0) = Inr r"
      by (rule preedge_InrD)
    from preedge_fits_span [OF fits] loc have
      near: "index_nearest en (en ! k) = Inr ie0" and e0f: "o_e0 f = en ! ie0" and
      nn: "\<not> isnan (en ! ie0)"
      by auto
    have klen: "k < length en" using kl by (simp add: k_def dmu_def len)
    from index_nearest_self [OF near klen nn]
    have "en ! ie0 = en ! k"
    proof
      assume bad: "isnan (en ! k) \<and> ie0 = 0"
      show ?thesis
      proof (cases "k = 0")
        case True
        with bad show ?thesis by simp
      next
        case False
        with spec have sup: "supported pts k" by auto
        then have cand: "k - 1 \<in> set pts" and pos: "0 < k" by (simp_all add: supported_def)
        from high_deriv_pts_positive [OF pts cand]
        have "\<not> isnan (dmu ! (k - 1))"
          using fl_less_not_nan by (auto simp: dmu_def)
        moreover have "isnan (gen ! (k - 1))"
          using np_gradient_before_nan [OF gen pos klen] bad by simp
        then have "isnan (dmu ! (k - 1))"
          using klen lg len by (simp add: dmu_def isnan_iff)
        ultimately show ?thesis by simp
      qed
    qed simp
    with e0f normalize_mu_fields(1) [OF nrm] show ?thesis by simp
  qed
  have klen: "k < length en" using kl by (simp add: k_def dmu_def len)
  have "en = remove_dups (remove_dups energy tiny_default frac_default) tiny_default frac_default \<and>
        np_gradient mu = Inr gmu \<and> np_gradient en = Inr gen \<and>
        py_max dmu = Inr m \<and> high_deriv_pts dmu = Inr pts \<and>
        set pts = {i. i < length en \<and> fl_less (fl_mul m (Fin (5 / 100))) (dmu ! i)} \<and>
        k = idmu_max_of dmu pts \<and> k < length en \<and>
        ((k = 0 \<and> (\<forall>i. \<not> supported pts i)) \<or>
         (supported pts k \<and> (\<forall>j. supported pts j \<longrightarrow> fl_le (dmu ! j) (dmu ! k)))) \<and>
        locate_e0 energy mu e0 = Inr (en, en ! k) \<and>
        preedge pf energy mu e0 step nnorm nvict pre1 pre2 norm1 norm2
          = preedge pf energy mu None step nnorm nvict pre1 pre2 norm1 norm2 \<and>
        (\<forall>r. preedge pf energy mu e0 step nnorm nvict pre1 pre2 norm1 norm2 = Inr r
             \<longrightarrow> o_e0 r = en ! k)"
    using gmu gen m pts set spec klen loc same edge
    by (simp add: en_def en1_def k_def dmu_def)
  then show ?thesis unfolding dmu_def by blast
qed


lemma run_locate:
  "locate_e0 [Fin 0, Fin 1, Fin 2, Fin 3, Fin 4, Fin 5]
     [Fin 0, Fin 0, Fin 0.1, Fin 1, Fin 1.9, Fin 2] None
   = Inr ([Fin 0, Fin 1, Fin 2, Fin 3, Fin 4, Fin 5], Fin 3)"
  by (simp add: run_defs)

text \<open>
  The amended C8 twice. On the energies 0 to 5 with an absorption that jumps between
  the samples 2 and 4 and no edge supplied, the index chosen lies between two candidates
  and the edge is the energy 3. On the energies 0, 1, 2 with a zero spectrum and the
  edge supplied as 7, out of range, \<^verbatim>\<open>preedge\<close> does what it does with no edge
  supplied; no index qualifies, and the record holds the energy 0 of index 0.
\<close>

theorem preedge_rederives_e0_witness:
  "length [Fin 0, Fin 0, Fin 0.1, Fin 1, Fin 1.9, Fin 2]
     = length [Fin 0, Fin 1, Fin 2, Fin 3, Fin 4, Fin 5] \<and>
   2 \<le> length [Fin 0, Fin 1, Fin 2, Fin 3, Fin 4, Fin 5] \<and>
   (\<exists>en pts k. locate_e0 [Fin 0, Fin 1, Fin 2, Fin 3, Fin 4, Fin 5]
                  [Fin 0, Fin 0, Fin 0.1, Fin 1, Fin 1.9, Fin 2] None = Inr (en, en ! k) \<and>
                supported pts k \<and> en ! k = Fin 3) \<and>
   length [Fin 0, Fin 0, Fin 0] = length [Fin 0, Fin 1, Fin 2] \<and>
   2 \<le> length [Fin 0, Fin 1, Fin 2] \<and>
   fl_less (last (remove_dups [Fin 0, Fin 1, Fin 2] tiny_default frac_default)) (Fin 7) \<and>
   (\<exists>en k. locate_e0 [Fin 0, Fin 1, Fin 2] [Fin 0, Fin 0, Fin 0] (Some (Fin 7)) = Inr (en, en ! k) \<and>
            Fin 0 = en ! k) \<and>
   preedge zero_fit [Fin 0, Fin 1, Fin 2] [Fin 0, Fin 0, Fin 0] (Some (Fin 7)) None 3 0
     None (Fin (- 50)) (Fin 100) None
   = preedge zero_fit [Fin 0, Fin 1, Fin 2] [Fin 0, Fin 0, Fin 0] None None 3 0
     None (Fin (- 50)) (Fin 100) None"
proof -
  let ?E = "[Fin 0, Fin 1, Fin 2, Fin 3, Fin 4, Fin 5]"
  let ?M = "[Fin 0, Fin 0, Fin 0.1, Fin 1, Fin 1.9, Fin 2]"
  let ?E3 = "[Fin 0, Fin 1, Fin 2]"
  let ?Z3 = "[Fin 0, Fin 0, Fin 0]"
  have h1: "length ?M = length ?E" and h2: "2 \<le> length ?E" by simp_all
  have h3: "(None :: fl option) = None \<or>
         (\<exists>w. None = Some w \<and>
            (fl_less w (hd (remove_dups ?E tiny_default frac_default)) \<or>
             fl_less (last (remove_dups ?E tiny_default frac_default)) w))"
    by simp
  from preedge_rederives_e0 [OF h1 h2 h3] obtain en pts k where
    loc: "locate_e0 ?E ?M None = Inr (en, en ! k)" and
    alt: "(k = 0 \<and> (\<forall>i. \<not> supported pts i)) \<or> supported pts k"
    by blast
  from loc run_locate have "(Inr (en, en ! k) :: error + fl list \<times> fl) = Inr (?E, Fin 3)"
    by (rule trans [OF sym])
  then have en: "en = ?E" and enk: "en ! k = Fin 3" by blast+
  have "k \<noteq> 0"
  proof
    assume "k = 0"
    with en enk show False by simp
  qed
  with alt have sup: "supported pts k" by simp
  have g1: "length ?Z3 = length ?E3" and g2: "2 \<le> length ?E3" by simp_all
  have out: "fl_less (last (remove_dups ?E3 tiny_default frac_default)) (Fin 7)"
    by (simp add: run_defs)
  then have g3: "Some (Fin 7) = None \<or>
         (\<exists>w. Some (Fin 7) = Some w \<and>
            (fl_less w (hd (remove_dups ?E3 tiny_default frac_default)) \<or>
             fl_less (last (remove_dups ?E3 tiny_default frac_default)) w))"
    by simp
  from preedge_rederives_e0 [OF g1 g2 g3, of zero_fit None 3 0 None "Fin (- 50)" "Fin 100" None]
  obtain en' k' where
    loc': "locate_e0 ?E3 ?Z3 (Some (Fin 7)) = Inr (en', en' ! k')" and
    same: "preedge zero_fit ?E3 ?Z3 (Some (Fin 7)) None 3 0 None (Fin (- 50)) (Fin 100) None
             = preedge zero_fit ?E3 ?Z3 None None 3 0 None (Fin (- 50)) (Fin 100) None" and
    edge: "\<forall>r. preedge zero_fit ?E3 ?Z3 (Some (Fin 7)) None 3 0 None (Fin (- 50)) (Fin 100) None
                 = Inr r \<longrightarrow> o_e0 r = en' ! k'"
    by blast
  from edge run_outside have "Fin 0 = en' ! k'" by simp
  with loc enk sup loc' same h1 h2 g1 g2 out show ?thesis by blast
qed

section \<open>Running without a point count\<close>
























section \<open>What remove_nans2 returns\<close>

lemma np_delete_map_aux:
  "map snd (filter (\<lambda>p. Q (fst p)) (enumerate n (map f xs)))
     = map f (map snd (filter (\<lambda>p. Q (fst p)) (enumerate n xs)))"
  by (induction xs arbitrary: n) simp_all

lemma np_delete_map:
  "np_delete (map f xs) bad = Inr ys \<Longrightarrow> \<exists>zs. np_delete xs bad = Inr zs \<and> ys = map f zs"
  using np_delete_map_aux [of "\<lambda>i. i \<notin> set bad" 0 f xs]
  by (auto simp: np_delete_def split: if_splits)

lemma np_delete_subseq_aux:
  "sorted_wrt R xs \<Longrightarrow>
   sorted_wrt R (map snd (filter P (enumerate n xs))) \<and>
   set (map snd (filter P (enumerate n xs))) \<subseteq> set xs"
proof (induction xs arbitrary: n)
  case Nil
  then show ?case by simp
next
  case (Cons x xs)
  then have "sorted_wrt R xs" and x: "\<forall>y\<in>set xs. R x y" by simp_all
  from Cons.IH [OF this(1), of "Suc n"] x show ?case by auto
qed

lemma np_delete_subseq:
  "np_delete xs bad = Inr ys \<Longrightarrow> sorted_wrt R xs \<Longrightarrow> sorted_wrt R ys \<and> set ys \<subseteq> set xs"
  using np_delete_subseq_aux [of R xs "\<lambda>p. fst p \<notin> set bad" 0]
  by (auto simp: np_delete_def split: if_splits)

lemma delete_both_paired:
  assumes "paired a b p" and "delete_both bad p = Inr p'"
  shows "paired a b p'"
proof -
  from assms(1) obtain idx where idx: "sorted_wrt (<) idx" "set idx \<subseteq> {..<length a}"
    and p: "fst p = map ((!) a) idx" "snd p = map ((!) b) idx"
    by (auto simp: paired_def)
  from assms(2) obtain a1 b1 where
    a1: "np_delete (map ((!) a) idx) bad = Inr a1" and
    b1: "np_delete (map ((!) b) idx) bad = Inr b1" and p': "p' = (a1, b1)"
    by (auto simp: delete_both_def bind_err_Inr p)
  from np_delete_map [OF a1] obtain zs where zs: "np_delete idx bad = Inr zs" "a1 = map ((!) a) zs"
    by blast
  from np_delete_map [OF b1] zs(1) have "b1 = map ((!) b) zs" by auto
  moreover from np_delete_subseq [OF zs(1) idx(1)] idx(2)
  have "sorted_wrt (<) zs" "set zs \<subseteq> {..<length a}" by auto
  ultimately show ?thesis using zs(2) p' by (auto simp: paired_def)
qed

text \<open>
  Both arrays always lose the same positions: what \<^verbatim>\<open>remove_nans2\<close> returns, when it
  returns, are the entries of the two inputs at one increasing list of indices.
\<close>

lemma remove_nans2_paired:
  assumes "remove_nans2 a b = Inr (a', b')" and "length a = length b"
  shows "length a' = length b' \<and>
         (\<exists>idx. sorted_wrt (<) idx \<and> set idx \<subseteq> {..<length a} \<and>
                a' = map ((!) a) idx \<and> b' = map ((!) b) idx)"
proof -
  have "map ((!) a) [0..<length a] = a" by (rule map_nth)
  moreover have "map ((!) b) [0..<length a] = b" unfolding assms(2) by (rule map_nth)
  ultimately have start: "paired a b (a, b)"
    unfolding paired_def
    by (intro exI [of _ "[0..<length a]"]) auto
  have step: "paired a b p'"
    if "paired a b p" "(if c then delete_both bad p else Inr p) = Inr p'" for c bad p p'
    using that delete_both_paired by (cases c) auto
  have "paired a b (a', b')"
  proof (cases "list_ex isinf a \<or> list_ex isinf b \<or> list_ex isnan a \<or> list_ex isnan b")
    case False
    with assms(1) start show ?thesis by (simp add: remove_nans2_def)
  next
    case True
    from assms(1) obtain p1 p2 p3 where
      "(if list_ex isinf a then delete_both (np_where (\<lambda>x. fl_eq x PInf) a) (a, b) else Inr (a, b))
         = Inr p1"
      "(if list_ex isinf b then delete_both (np_where (\<lambda>x. fl_eq x PInf) b) p1 else Inr p1) = Inr p2"
      "(if list_ex isnan a then delete_both (np_where (\<lambda>x. fl_eq x NaN) a) p2 else Inr p2) = Inr p3"
      "(if list_ex isnan b then delete_both (np_where (\<lambda>x. fl_eq x NaN) b) p3 else Inr p3)
         = Inr (a', b')"
      unfolding remove_nans2_def if_P [OF True] bind_err_Inr by blast
    with start show ?thesis using step by blast
  qed
  then show ?thesis by (auto simp: paired_def)
qed

end
